theory Spec2Isabelle
  imports Main
begin

section \<open>Python strings\<close>

text \<open>
  The harness of \<^verbatim>\<open>virtwho/runner.py\<close> works on Python strings. A string is modelled as
  a \<^typ>\<open>string\<close> of ASCII characters; the log of the agent is ASCII text.
\<close>

definition newline :: char where
  "newline = CHR 0x0A"

definition upper_letters :: string where
  "upper_letters = ''ABCDEFGHIJKLMNOPQRSTUVWXYZ''"

definition lower_letters :: string where
  "lower_letters = ''abcdefghijklmnopqrstuvwxyz''"

definition digit_chars :: string where
  "digit_chars = ''0123456789''"

definition lower_char :: "char \<Rightarrow> char" where
  "lower_char c = (case map_of (zip upper_letters lower_letters) c of Some l \<Rightarrow> l | None \<Rightarrow> c)"

definition is_digit :: "char \<Rightarrow> bool" where
  "is_digit c = (c \<in> set digit_chars)"

text \<open>\<^verbatim>\<open>str.isspace\<close> on ASCII: tab, line feed, vertical tab, form feed, carriage return,
  the four separators 0x1C..0x1F and the blank.\<close>

definition is_space :: "char \<Rightarrow> bool" where
  "is_space c = (c \<in> set [CHR 0x09, CHR 0x0A, CHR 0x0B, CHR 0x0C, CHR 0x0D,
                           CHR 0x1C, CHR 0x1D, CHR 0x1E, CHR 0x1F, CHR 0x20])"

text \<open>\<^verbatim>\<open>s.strip()\<close>\<close>

definition strip :: "string \<Rightarrow> string" where
  "strip s = rev (dropWhile is_space (rev (dropWhile is_space s)))"

text \<open>\<^verbatim>\<open>sub in s\<close>\<close>

definition starts_with :: "string \<Rightarrow> string \<Rightarrow> bool" where
  "starts_with sub s = (take (length sub) s = sub)"

fun str_in :: "string \<Rightarrow> string \<Rightarrow> bool" where
  "str_in sub [] = (sub = [])"
| "str_in sub (x # xs) = (starts_with sub (x # xs) \<or> str_in sub xs)"

text \<open>\<^verbatim>\<open>s.split("\n")\<close>: the pieces between the separators; an empty string gives one
  empty piece.\<close>

fun split_on :: "char \<Rightarrow> string \<Rightarrow> string list" where
  "split_on d [] = [[]]"
| "split_on d (x # xs) =
     (if x = d then [] # split_on d xs
      else (case split_on d xs of [] \<Rightarrow> [[x]] | p # ps \<Rightarrow> (x # p) # ps))"

text \<open>\<^verbatim>\<open>s.replace("\n", "")\<close>\<close>

definition remove_newlines :: "string \<Rightarrow> string" where
  "remove_newlines s = filter (\<lambda>c. c \<noteq> newline) s"

text \<open>\<^verbatim>\<open>str(n)\<close> for an integer, as the f-strings of the source format it.\<close>

fun str_nat :: "nat \<Rightarrow> string" where
  "str_nat n = (if n < 10 then [digit_chars ! n] else str_nat (n div 10) @ [digit_chars ! (n mod 10)])"

declare str_nat.simps [simp del]

definition str_int :: "int \<Rightarrow> string" where
  "str_int i = (if i < 0 then CHR ''-'' # str_nat (nat (- i)) else str_nat (nat i))"

section \<open>Errors\<close>

text \<open>Every exception the harness can raise is a value; a computation that can raise returns
  \<open>error + 'a\<close>, with \<open>Inl\<close> for the exception.\<close>

datatype error =
    IndexError
  | KeyError
  | TypeError
  | ValueError
  | AttributeError
  | FailException string

section \<open>Regular expressions of the \<^verbatim>\<open>re\<close> module\<close>

text \<open>
  The patterns of the source use single characters, \<^verbatim>\<open>.\<close>, \<^verbatim>\<open>\d\<close>, the repetitions
  \<^verbatim>\<open>*\<close>, \<^verbatim>\<open>*?\<close>, \<^verbatim>\<open>+\<close> of one character class, one capture group, a look-behind for a
  literal and a look-ahead for alternatives of character classes and \<^verbatim>\<open>$\<close>. A pattern is
  kept in compiled form, as the list of its items; the matcher is the backtracking matcher of
  \<^verbatim>\<open>re\<close>: alternatives are tried in the order of the pattern, a greedy repetition first
  takes one more character, a lazy one first takes none.
\<close>

datatype cls = Lit char | Dot | Digit

datatype la = LCls cls | LEnd

datatype re_atom =
    One cls
  | Star cls
  | Lazy cls
  | Plus cls
  | GOpen
  | GClose
  | Behind string
  | Ahead "la list list"

type_synonym regex = "re_atom list"

record re_flags =
  ignorecase :: bool
  dotall :: bool

definition flags_none :: re_flags where
  "flags_none = \<lparr>ignorecase = False, dotall = False\<rparr>"

definition flags_I :: re_flags where
  "flags_I = \<lparr>ignorecase = True, dotall = False\<rparr>"

definition flags_S :: re_flags where
  "flags_S = \<lparr>ignorecase = False, dotall = True\<rparr>"

fun cls_ok :: "re_flags \<Rightarrow> cls \<Rightarrow> char \<Rightarrow> bool" where
  "cls_ok f (Lit c) x = (if ignorecase f then lower_char c = lower_char x else c = x)"
| "cls_ok f Dot x = (dotall f \<or> x \<noteq> newline)"
| "cls_ok f Digit x = is_digit x"

text \<open>\<^verbatim>\<open>$\<close> without \<^verbatim>\<open>re.M\<close>: at the end of the text, or before a line feed that ends the text.\<close>

fun la_ok :: "re_flags \<Rightarrow> la list \<Rightarrow> string \<Rightarrow> bool" where
  "la_ok f [] rest = True"
| "la_ok f (LEnd # ls) rest = ((rest = [] \<or> rest = [newline]) \<and> la_ok f ls rest)"
| "la_ok f (LCls c # ls) [] = False"
| "la_ok f (LCls c # ls) (x # xs) = (cls_ok f c x \<and> la_ok f ls xs)"

text \<open>The result of a match: the text left after the match, and the texts left where the
  group was opened and closed.\<close>

record mres =
  m_rest :: string
  g_open :: "string option"
  g_close :: "string option"

text \<open>
  \<open>rmatch f adv n0 p pre rest\<close> matches the items \<open>p\<close> at the cursor: \<open>pre\<close> is the text before
  the cursor, reversed, \<open>rest\<close> the text from the cursor on. \<open>adv\<close> is the matcher's
  \<^verbatim>\<open>must_advance\<close>: a match that ends where it started (\<open>n0\<close> characters left) is refused.
\<close>

fun rmatch :: "re_flags \<Rightarrow> bool \<Rightarrow> nat \<Rightarrow> regex \<Rightarrow> string \<Rightarrow> string \<Rightarrow> mres option" where
  "rmatch f adv n0 [] pre rest =
     (if adv \<and> length rest = n0 then None
      else Some \<lparr>m_rest = rest, g_open = None, g_close = None\<rparr>)"
| "rmatch f adv n0 (One c # p) pre [] = None"
| "rmatch f adv n0 (One c # p) pre (x # xs) =
     (if cls_ok f c x then rmatch f adv n0 p (x # pre) xs else None)"
| "rmatch f adv n0 (Star c # p) pre [] = rmatch f adv n0 p pre []"
| "rmatch f adv n0 (Star c # p) pre (x # xs) =
     (if cls_ok f c x then
        (case rmatch f adv n0 (Star c # p) (x # pre) xs of
           Some m \<Rightarrow> Some m
         | None \<Rightarrow> rmatch f adv n0 p pre (x # xs))
      else rmatch f adv n0 p pre (x # xs))"
| "rmatch f adv n0 (Lazy c # p) pre [] = rmatch f adv n0 p pre []"
| "rmatch f adv n0 (Lazy c # p) pre (x # xs) =
     (case rmatch f adv n0 p pre (x # xs) of
        Some m \<Rightarrow> Some m
      | None \<Rightarrow> (if cls_ok f c x then rmatch f adv n0 (Lazy c # p) (x # pre) xs else None))"
| "rmatch f adv n0 (Plus c # p) pre [] = None"
| "rmatch f adv n0 (Plus c # p) pre (x # xs) =
     (if cls_ok f c x then rmatch f adv n0 (Star c # p) (x # pre) xs else None)"
| "rmatch f adv n0 (GOpen # p) pre rest =
     map_option (\<lambda>m. m\<lparr>g_open := Some rest\<rparr>) (rmatch f adv n0 p pre rest)"
| "rmatch f adv n0 (GClose # p) pre rest =
     map_option (\<lambda>m. m\<lparr>g_close := Some rest\<rparr>) (rmatch f adv n0 p pre rest)"
| "rmatch f adv n0 (Behind s # p) pre rest =
     (if starts_with (rev s) pre then rmatch f adv n0 p pre rest else None)"
| "rmatch f adv n0 (Ahead alts # p) pre rest =
     (if list_ex (\<lambda>a. la_ok f a rest) alts then rmatch f adv n0 p pre rest else None)"

text \<open>The text between two cursors, each given by the text left after it.\<close>

definition between :: "string \<Rightarrow> string \<Rightarrow> string" where
  "between a b = take (length a - length b) a"

text \<open>What \<^verbatim>\<open>findall\<close> reports for a match that started with \<open>rest\<close> left: the group if
  the pattern has one, the whole match otherwise.\<close>

definition has_group :: "regex \<Rightarrow> bool" where
  "has_group p = (GOpen \<in> set p)"

definition item_of :: "regex \<Rightarrow> string \<Rightarrow> mres \<Rightarrow> string" where
  "item_of p rest m =
     (if has_group p then
        (case (g_open m, g_close m) of
           (Some a, Some b) \<Rightarrow> between a b
         | _ \<Rightarrow> [])
      else between rest (m_rest m))"

text \<open>
  \<open>scan\<close> is the loop of \<^verbatim>\<open>findall\<close>: matches are searched from left to right and do
  not overlap. \<open>skip\<close> counts the characters of the last match that are still to be passed.
  After an empty match the same position is tried once more with \<^verbatim>\<open>must_advance\<close>.
\<close>

definition at_pos :: "re_flags \<Rightarrow> regex \<Rightarrow> string \<Rightarrow> string \<Rightarrow> (string list \<times> nat)" where
  "at_pos f p pre rest =
     (case rmatch f False (length rest) p pre rest of
        None \<Rightarrow> ([], 0)
      | Some m \<Rightarrow>
          (if length (m_rest m) < length rest
           then ([item_of p rest m], length rest - length (m_rest m))
           else (case rmatch f True (length rest) p pre rest of
                   None \<Rightarrow> ([item_of p rest m], 0)
                 | Some m' \<Rightarrow> ([item_of p rest m, item_of p rest m'],
                               length rest - length (m_rest m')))))"

fun scan :: "re_flags \<Rightarrow> regex \<Rightarrow> nat \<Rightarrow> string \<Rightarrow> string \<Rightarrow> string list" where
  "scan f p skip pre [] = (if skip = 0 then fst (at_pos f p pre []) else [])"
| "scan f p skip pre (x # xs) =
     (if skip = 0 then
        (case at_pos f p pre (x # xs) of
           (items, n) \<Rightarrow> items @ scan f p (n - 1) (x # pre) xs)
      else scan f p (skip - 1) (x # pre) xs)"

text \<open>\<^verbatim>\<open>re.findall(pattern, text, flags)\<close>\<close>

definition re_findall :: "re_flags \<Rightarrow> regex \<Rightarrow> string \<Rightarrow> string list" where
  "re_findall f p s = scan f p 0 [] s"

definition lit :: "string \<Rightarrow> regex" where
  "lit s = map (\<lambda>c. One (Lit c)) s"

text \<open>\<^verbatim>\<open>int(s)\<close> for a string: blanks around, an optional sign, decimal digits with single
  underscores between them; anything else raises \<^verbatim>\<open>ValueError\<close>.\<close>

definition digit_val :: "char \<Rightarrow> nat" where
  "digit_val c = (case map_of (zip digit_chars [0..<10]) c of Some d \<Rightarrow> d | None \<Rightarrow> 0)"

fun parse_digits :: "nat \<Rightarrow> bool \<Rightarrow> string \<Rightarrow> nat option" where
  "parse_digits acc prev [] = (if prev then Some acc else None)"
| "parse_digits acc prev (c # cs) =
     (if is_digit c then parse_digits (acc * 10 + digit_val c) True cs
      else if c = CHR ''_'' \<and> prev \<and> cs \<noteq> [] \<and> is_digit (hd cs) then parse_digits acc False cs
      else None)"

definition py_int :: "string \<Rightarrow> error + int" where
  "py_int s =
     (case strip s of
        [] \<Rightarrow> Inl ValueError
      | c # cs \<Rightarrow>
          (if c = CHR ''-'' then
             (case parse_digits 0 False cs of None \<Rightarrow> Inl ValueError | Some n \<Rightarrow> Inr (- int n))
           else if c = CHR ''+'' then
             (case parse_digits 0 False cs of None \<Rightarrow> Inl ValueError | Some n \<Rightarrow> Inr (int n))
           else
             (case parse_digits 0 False (c # cs) of None \<Rightarrow> Inl ValueError | Some n \<Rightarrow> Inr (int n))))"

section \<open>The runner and its pure analysers\<close>

text \<open>\<^verbatim>\<open>VirtwhoRunner.__init__\<close>: the run context.\<close>

record runner =
  mode :: string
  register_type :: string
  config_file :: string
  rhsm_log_file :: string
  print_json_file :: string

definition init_runner :: "string \<Rightarrow> string \<Rightarrow> runner" where
  "init_runner m r =
     \<lparr>mode = m, register_type = r,
      config_file = ''/etc/virt-who.d/'' @ m @ ''.conf'',
      rhsm_log_file = ''/var/log/rhsm/rhsm.log'',
      print_json_file = ''/root/print.json''\<rparr>"

text \<open>\<^verbatim>\<open>run_cli\<close> up to the call of \<^verbatim>\<open>run_start\<close>: the command line. \<^verbatim>\<open>interval\<close> and
  \<^verbatim>\<open>config\<close> may be \<^verbatim>\<open>None\<close>; \<^verbatim>\<open>if interval:\<close> and \<^verbatim>\<open>if config:\<close> are Python truth
  tests, false for \<^verbatim>\<open>None\<close>, for 0 and for the empty string.\<close>

definition run_cli_cmd ::
  "runner \<Rightarrow> bool \<Rightarrow> bool \<Rightarrow> int option \<Rightarrow> bool \<Rightarrow> string option \<Rightarrow> string" where
  "run_cli_cmd self debug oneshot interval prt config =
     (let cmd = ''virt-who '';
          cmd = (if debug then cmd @ ''-d '' else cmd);
          cmd = (if oneshot then cmd @ ''-o '' else cmd);
          cmd = (case interval of
                   None \<Rightarrow> cmd
                 | Some i \<Rightarrow> if i \<noteq> 0 then cmd @ ''-i '' @ str_int i @ '' '' else cmd);
          cmd = (if prt then cmd @ ''-p '' else cmd);
          cmd = (case config of
                   None \<Rightarrow> cmd
                 | Some c \<Rightarrow>
                     if c \<noteq> [] then
                       (let c = (if c = ''default'' then config_file self else c)
                        in cmd @ ''-c '' @ c @ '' '')
                     else cmd)
      in if prt then cmd @ '' > '' @ print_json_file self else cmd)"

text \<open>\<^verbatim>\<open>msg_number\<close>: the number of matches, ignoring case.\<close>

definition msg_number :: "string \<Rightarrow> regex \<Rightarrow> nat" where
  "msg_number output msg = length (re_findall flags_I msg output)"

text \<open>\<^verbatim>\<open>msg_search\<close>: every message of \<^verbatim>\<open>msgs\<close> must be found; a message with
  \<^verbatim>\<open>|\<close> is found when one of its parts is. A message is given here as the list of its
  parts, already split at \<^verbatim>\<open>|\<close> and compiled.\<close>

definition msg_search :: "string \<Rightarrow> regex list list \<Rightarrow> bool" where
  "msg_search output msgs =
     (let search_list = map (\<lambda>keys. list_ex (\<lambda>key. msg_number output key > 0) keys) msgs
      in \<not> (False \<in> set search_list))"

text \<open>A call with one string that has no \<^verbatim>\<open>|\<close>.\<close>

definition one_msg :: "regex \<Rightarrow> regex list list" where
  "one_msg p = [[p]]"

text \<open>The patterns of the source.\<close>

definition sq :: char where
  "sq = CHR 0x27"

definition dq :: char where
  "dq = CHR 0x22"

definition re_debug :: regex where
  "re_debug = [One (Lit CHR ''[''), Star Dot] @ lit ''DEBUG'' @ [One (Lit CHR '']'')]"

definition re_oneshot :: regex where
  "re_oneshot = lit ''Thread '' @ [One (Lit sq), Star Dot, One (Lit sq)]
                @ lit '' stopped after running once''"

definition re_terminated :: regex where
  "re_terminated = lit ''virt-who terminated''"

definition re_429 :: regex where
  "re_429 = lit ''status=429''"

definition re_500 :: regex where
  "re_500 = lit ''RemoteServerException: Server error attempting a GET'' @ [Star Dot]
            @ lit ''returned status 500''"

definition re_error :: regex where
  "re_error = [One (Lit CHR ''[''), Star Dot] @ lit ''ERROR'' @ [Star Dot, One (Lit CHR '']'')]"

definition msg_zero :: string where
  "msg_zero = ''0 hypervisors and 0 guests found''"

definition re_sat_put :: regex where
  "re_sat_put = lit ''Response: status=200, request='' @ [One (Lit dq)] @ lit ''PUT /rhsm/consumers''"

definition re_sat_post :: regex where
  "re_sat_post = lit ''Response: status=200, request='' @ [One (Lit dq)] @ lit ''POST /rhsm/hypervisors''"

definition re_rhsm_put :: regex where
  "re_rhsm_put = lit ''Response: status=20'' @ [Star Dot] @ lit ''requestUuid'' @ [Star Dot]
                 @ lit ''request='' @ [One (Lit dq)] @ lit ''PUT /subscription/consumers''"

definition re_rhsm_post :: regex where
  "re_rhsm_post = lit ''Response: status=20'' @ [Star Dot] @ lit ''requestUuid'' @ [Star Dot]
                  @ lit ''request='' @ [One (Lit dq)] @ lit ''POST /subscription/hypervisors''"

definition msg_send_local :: string where
  "msg_send_local = ''Sending update in guests lists for config''"

definition msg_send_remote :: string where
  "msg_send_remote = ''Sending updated Host-to-guest mapping to''"

text \<open>\<^verbatim>\<open>send_number\<close>. The two tests of \<^verbatim>\<open>register_type\<close> are separate \<^verbatim>\<open>if\<close>s, the
  second one overrides the first, and \<^verbatim>\<open>msg\<close> stays empty when neither holds.\<close>

definition send_msg :: "runner \<Rightarrow> string \<Rightarrow> regex" where
  "send_msg self rhsm_log =
     (let msg = [] in
      if str_in msg_zero rhsm_log then lit msg_zero
      else if str_in ''virtwho.main DEBUG'' rhsm_log \<or> str_in ''rhsm.connection DEBUG'' rhsm_log then
        (let msg = (if str_in ''satellite'' (register_type self) then
                      (if mode self = ''local'' then re_sat_put else re_sat_post)
                    else msg);
             msg = (if str_in ''rhsm'' (register_type self) then
                      (if mode self = ''local'' then re_rhsm_put else re_rhsm_post)
                    else msg)
         in msg)
      else
        (if mode self = ''local'' then lit msg_send_local else lit msg_send_remote))"

definition send_number :: "runner \<Rightarrow> string \<Rightarrow> nat" where
  "send_number self rhsm_log = length (re_findall flags_I (send_msg self rhsm_log) rhsm_log)"

text \<open>\<^verbatim>\<open>reporter_id\<close>: \<^verbatim>\<open>None\<close> when the pattern is not found.\<close>

definition re_reporter_id :: regex where
  "re_reporter_id = lit ''reporter_id='' @ [One (Lit sq), GOpen, Lazy Dot, GClose, One (Lit sq)]"

definition reporter_id :: "string \<Rightarrow> string option" where
  "reporter_id rhsm_log =
     (case re_findall flags_none re_reporter_id rhsm_log of
        [] \<Rightarrow> None
      | r # _ \<Rightarrow> Some (strip r))"

text \<open>\<^verbatim>\<open>interval_time\<close>: \<^verbatim>\<open>int\<close> raises \<^verbatim>\<open>ValueError\<close> on a capture that is no number.\<close>

definition re_interval :: regex where
  "re_interval = lit ''Starting infinite loop with'' @ [GOpen, Lazy Dot, GClose]
                 @ lit ''seconds interval''"

definition interval_time :: "string \<Rightarrow> error + int option" where
  "interval_time rhsm_log =
     (case re_findall flags_none re_interval rhsm_log of
        [] \<Rightarrow> Inr None
      | r # _ \<Rightarrow> (case py_int (strip r) of Inl e \<Rightarrow> Inl e | Inr i \<Rightarrow> Inr (Some i)))"

section \<open>Python values and the mapping parsers\<close>

text \<open>
  The values \<^verbatim>\<open>json.loads\<close> returns and the dictionaries the parsers build. A dictionary is
  the list of its items in insertion order, without two equal keys. \<^verbatim>\<open>json.loads\<close> belongs
  to Python's library: the parsers take it as the parameter \<open>loads\<close>, which gives \<open>None\<close>
  where \<^verbatim>\<open>json.loads\<close> raises.
\<close>

datatype pyval =
    PNone
  | PBool bool
  | PInt int
  | PStr string
  | PList "pyval list"
  | PDict "(pyval \<times> pyval) list"

definition ebind :: "error + 'a \<Rightarrow> ('a \<Rightarrow> error + 'b) \<Rightarrow> error + 'b" where
  "ebind m f = (case m of Inl e \<Rightarrow> Inl e | Inr x \<Rightarrow> f x)"

fun efold :: "('a \<Rightarrow> 's \<Rightarrow> error + 's) \<Rightarrow> 'a list \<Rightarrow> 's \<Rightarrow> error + 's" where
  "efold f [] s = Inr s"
| "efold f (x # xs) s = ebind (f x s) (efold f xs)"

fun hashable :: "pyval \<Rightarrow> bool" where
  "hashable (PList _) = False"
| "hashable (PDict _) = False"
| "hashable _ = True"

text \<open>
  Equality of dictionary keys. \<^verbatim>\<open>True == 1\<close> and \<^verbatim>\<open>False == 0\<close> hold in Python, with equal
  hashes, so a boolean and the integer it equals are one key; other hashable values of the
  model are equal keys only when they are the same value.
\<close>

fun key_norm :: "pyval \<Rightarrow> pyval" where
  "key_norm (PBool b) = PInt (if b then 1 else 0)"
| "key_norm k = k"

definition key_eq :: "pyval \<Rightarrow> pyval \<Rightarrow> bool" where
  "key_eq a b = (key_norm a = key_norm b)"

text \<open>The value stored under a key equal to \<open>k\<close>.\<close>

fun dict_get :: "(pyval \<times> pyval) list \<Rightarrow> pyval \<Rightarrow> pyval option" where
  "dict_get [] k = None"
| "dict_get ((k', v') # kvs) k = (if key_eq k' k then Some v' else dict_get kvs k)"

text \<open>\<^verbatim>\<open>k in d.keys()\<close>\<close>

definition key_in :: "pyval \<Rightarrow> pyval list \<Rightarrow> bool" where
  "key_in k ks = list_ex (\<lambda>k'. key_eq k' k) ks"

text \<open>An index of a sequence of \<open>len\<close> items: a negative one counts from the end.\<close>

definition norm_index :: "nat \<Rightarrow> int \<Rightarrow> nat option" where
  "norm_index len i =
     (if 0 \<le> i \<and> i < int len then Some (nat i)
      else if i < 0 \<and> - i \<le> int len then Some (nat (int len + i))
      else None)"

text \<open>\<^verbatim>\<open>x[k]\<close>\<close>

fun py_subscript :: "pyval \<Rightarrow> pyval \<Rightarrow> error + pyval" where
  "py_subscript (PDict kvs) k =
     (if hashable k then (case dict_get kvs k of None \<Rightarrow> Inl KeyError | Some v \<Rightarrow> Inr v)
      else Inl TypeError)"
| "py_subscript (PList xs) (PInt i) =
     (case norm_index (length xs) i of None \<Rightarrow> Inl IndexError | Some j \<Rightarrow> Inr (xs ! j))"
| "py_subscript (PStr cs) (PInt i) =
     (case norm_index (length cs) i of None \<Rightarrow> Inl IndexError | Some j \<Rightarrow> Inr (PStr [cs ! j]))"
| "py_subscript _ _ = Inl TypeError"

definition py_getitem :: "pyval \<Rightarrow> string \<Rightarrow> error + pyval" where
  "py_getitem x k = py_subscript x (PStr k)"

text \<open>\<^verbatim>\<open>for item in x\<close>\<close>

fun py_iter :: "pyval \<Rightarrow> error + pyval list" where
  "py_iter (PList xs) = Inr xs"
| "py_iter (PDict kvs) = Inr (map fst kvs)"
| "py_iter (PStr cs) = Inr (map (\<lambda>c. PStr [c]) cs)"
| "py_iter _ = Inl TypeError"

text \<open>\<^verbatim>\<open>x.keys()\<close>\<close>

fun py_keys :: "pyval \<Rightarrow> error + pyval list" where
  "py_keys (PDict kvs) = Inr (map fst kvs)"
| "py_keys _ = Inl AttributeError"

text \<open>\<^verbatim>\<open>len(x)\<close>\<close>

fun py_len :: "pyval \<Rightarrow> error + int" where
  "py_len (PList xs) = Inr (int (length xs))"
| "py_len (PDict kvs) = Inr (int (length kvs))"
| "py_len (PStr cs) = Inr (int (length cs))"
| "py_len _ = Inl TypeError"

text \<open>\<^verbatim>\<open>d[k] = v\<close>: under a key equal to one the dictionary has, the value is replaced and
  the key of the dictionary stays, at its place.\<close>

fun dict_put :: "(pyval \<times> pyval) list \<Rightarrow> pyval \<Rightarrow> pyval \<Rightarrow> (pyval \<times> pyval) list" where
  "dict_put [] k v = [(k, v)]"
| "dict_put ((k', v') # kvs) k v =
     (if key_eq k' k then (k', v) # kvs else (k', v') # dict_put kvs k v)"

definition dict_set ::
  "(pyval \<times> pyval) list \<Rightarrow> pyval \<Rightarrow> pyval \<Rightarrow> error + (pyval \<times> pyval) list" where
  "dict_set d k v = (if hashable k then Inr (dict_put d k v) else Inl TypeError)"

text \<open>Truth of a value, as \<^verbatim>\<open>if mapping:\<close> tests it.\<close>

fun py_truth :: "pyval \<Rightarrow> bool" where
  "py_truth PNone = False"
| "py_truth (PBool b) = b"
| "py_truth (PInt i) = (i \<noteq> 0)"
| "py_truth (PStr cs) = (cs \<noteq> [])"
| "py_truth (PList xs) = (xs \<noteq> [])"
| "py_truth (PDict kvs) = (kvs \<noteq> [])"

subsection \<open>Local mode\<close>

text \<open>\<^verbatim>\<open>(?<=Domain info: )\[.*?\]\n+(?=\d\d\d\d|$)\<close> with \<^verbatim>\<open>re.S\<close>\<close>

definition re_local_block :: regex where
  "re_local_block =
     [Behind ''Domain info: '', One (Lit CHR ''[''), Lazy Dot, One (Lit CHR '']''),
      Plus (Lit newline),
      Ahead [[LCls Digit, LCls Digit, LCls Digit, LCls Digit], [LEnd]]]"

text \<open>The body of the loop over the parsed array.\<close>

definition local_item :: "pyval \<Rightarrow> (pyval \<times> pyval) list \<Rightarrow> error + (pyval \<times> pyval) list" where
  "local_item item data =
     ebind (py_getitem item ''guestId'') (\<lambda>guestId.
     ebind (py_getitem item ''state'') (\<lambda>state.
     ebind (py_getitem item ''attributes'') (\<lambda>attributes.
     ebind (py_getitem attributes ''active'') (\<lambda>active.
     ebind (py_getitem item ''attributes'') (\<lambda>attributes.
     ebind (py_getitem attributes ''virtWhoType'') (\<lambda>vtype.
       dict_set data guestId
         (PDict [(PStr ''state'', state), (PStr ''active'', active), (PStr ''type'', vtype)])))))))"

text \<open>\<^verbatim>\<open>mappings_local\<close>: \<^verbatim>\<open>rex.findall(rhsm_log)[0]\<close> is outside the \<^verbatim>\<open>try\<close> and
  raises \<^verbatim>\<open>IndexError\<close> when the log has no block.\<close>

definition mappings_local :: "(string \<Rightarrow> pyval option) \<Rightarrow> string \<Rightarrow> error + pyval" where
  "mappings_local loads rhsm_log =
     (case re_findall flags_S re_local_block rhsm_log of
        [] \<Rightarrow> Inl IndexError
      | mapping_info # _ \<Rightarrow>
          (case loads (remove_newlines mapping_info) of
             None \<Rightarrow> Inr (PDict [])
           | Some v \<Rightarrow>
               ebind (py_iter v) (\<lambda>items.
               ebind (efold local_item items []) (\<lambda>data. Inr (PDict data)))))"

subsection \<open>Remote mode\<close>

text \<open>\<^verbatim>\<open>Host-to-guest mapping being sent to '(.*?)'\<close>\<close>

definition msg_sent_to :: string where
  "msg_sent_to = ''Host-to-guest mapping being sent to ''"

definition re_orgs :: regex where
  "re_orgs = lit msg_sent_to @ [One (Lit sq), GOpen, Lazy Dot, GClose, One (Lit sq)]"

text \<open>\<^verbatim>\<open>(?<=: ){.*?}\n+(?=202|$)\<close> with \<^verbatim>\<open>re.S\<close>\<close>

definition re_remote_block :: regex where
  "re_remote_block =
     [Behind '': '', One (Lit CHR ''{''), Lazy Dot, One (Lit CHR ''}''),
      Plus (Lit newline),
      Ahead [[LCls (Lit CHR ''2''), LCls (Lit CHR ''0''), LCls (Lit CHR ''2'')], [LEnd]]]"

text \<open>The body of the loop over \<^verbatim>\<open>item['guestIds']\<close>: the state is the list \<^verbatim>\<open>guests\<close>
  and the dictionary \<^verbatim>\<open>org_data\<close>.\<close>

definition remote_guest ::
  "pyval \<Rightarrow> pyval \<Rightarrow> pyval list \<times> (pyval \<times> pyval) list
     \<Rightarrow> error + (pyval list \<times> (pyval \<times> pyval) list)" where
  "remote_guest hypervisorId guest st =
     (case st of (guests, org_data) \<Rightarrow>
        ebind (py_getitem guest ''guestId'') (\<lambda>guestId.
        ebind (py_getitem guest ''state'') (\<lambda>state.
        ebind (py_getitem guest ''attributes'') (\<lambda>attributes.
        ebind (py_getitem attributes ''active'') (\<lambda>active.
        ebind (py_getitem guest ''attributes'') (\<lambda>attributes.
        ebind (py_getitem attributes ''virtWhoType'') (\<lambda>vtype.
        ebind (dict_set org_data guestId
                 (PDict [(PStr ''guest_hypervisor'', hypervisorId), (PStr ''state'', state),
                         (PStr ''active'', active), (PStr ''type'', vtype)])) (\<lambda>org_data.
          Inr (guests @ [guestId], org_data)))))))))"

text \<open>The body of the loop over \<^verbatim>\<open>hypervisors\<close>.\<close>

definition remote_item :: "pyval \<Rightarrow> (pyval \<times> pyval) list \<Rightarrow> error + (pyval \<times> pyval) list" where
  "remote_item item org_data =
     ebind (py_getitem item ''hypervisorId'') (\<lambda>hid.
     ebind (py_getitem hid ''hypervisorId'') (\<lambda>hypervisorId.
     ebind (py_keys item) (\<lambda>item_keys.
     ebind (if key_in (PStr ''name'') item_keys then py_getitem item ''name'' else Inr (PStr [])) (\<lambda>hypervisor_name.
     ebind (py_getitem item ''facts'') (\<lambda>facts.
     ebind (py_getitem facts ''hypervisor.type'') (\<lambda>ftype.
     ebind (py_getitem facts ''hypervisor.version'') (\<lambda>fversion.
     ebind (py_getitem facts ''cpu.cpu_socket(s)'') (\<lambda>fsocket.
     ebind (py_getitem facts ''dmi.system.uuid'') (\<lambda>fdmi.
     ebind (py_keys facts) (\<lambda>facts_keys.
     ebind (if key_in (PStr ''hypervisor.cluster'') facts_keys
            then py_getitem facts ''hypervisor.cluster'' else Inr (PStr [])) (\<lambda>fcluster.
     ebind (py_getitem item ''guestIds'') (\<lambda>guestIds.
     ebind (py_iter guestIds) (\<lambda>guest_list.
     ebind (efold (remote_guest hypervisorId) guest_list ([], org_data)) (\<lambda>(guests, org_data).
       dict_set org_data hypervisorId
         (PDict [(PStr ''name'', hypervisor_name), (PStr ''type'', ftype),
                 (PStr ''version'', fversion), (PStr ''socket'', fsocket),
                 (PStr ''dmi'', fdmi), (PStr ''cluster'', fcluster),
                 (PStr ''guests'', PList guests)])))))))))))))))"

text \<open>
  \<^verbatim>\<open>org_data\<close> is one dictionary, created before the loop over the organizations and stored
  under every organization: what \<^verbatim>\<open>data\<close> holds when it is returned is the last state of
  \<^verbatim>\<open>org_data\<close> under each organization stored so far.
\<close>

definition remote_data :: "string list \<Rightarrow> string list \<Rightarrow> (pyval \<times> pyval) list \<Rightarrow> pyval" where
  "remote_data orgs stored org_data =
     PDict (foldl (\<lambda>d org. dict_put d (PStr org) (PDict org_data))
                  [(PStr ''orgs'', PList (map PStr orgs))] stored)"

text \<open>The text the loop parses for an organization: \<^verbatim>\<open>key\<close> is built from the organization
  and not used; the block is the last one of the whole log.\<close>

definition mapping_block :: "string \<Rightarrow> string \<Rightarrow> error + string" where
  "mapping_block rhsm_log org =
     (let key = msg_sent_to @ [sq] @ org @ [sq] in
      case re_findall flags_S re_remote_block rhsm_log of
        [] \<Rightarrow> Inl IndexError
      | b # bs \<Rightarrow> Inr (last (b # bs)))"

fun remote_orgs ::
  "(string \<Rightarrow> pyval option) \<Rightarrow> string \<Rightarrow> string list \<Rightarrow> string list \<Rightarrow> string list
     \<Rightarrow> (pyval \<times> pyval) list \<Rightarrow> error + pyval" where
  "remote_orgs loads rhsm_log orgs [] stored org_data = Inr (remote_data orgs stored org_data)"
| "remote_orgs loads rhsm_log orgs (org # rest) stored org_data =
     ebind (mapping_block rhsm_log org) (\<lambda>mapping_info.
       case loads (remove_newlines mapping_info) of
         None \<Rightarrow> Inr (remote_data orgs stored org_data)
       | Some mapping_info \<Rightarrow>
           ebind (py_getitem mapping_info ''hypervisors'') (\<lambda>hypervisors.
           ebind (py_len hypervisors) (\<lambda>n.
           ebind (dict_set org_data (PStr ''hypervisor_num'') (PInt n)) (\<lambda>org_data.
           ebind (py_iter hypervisors) (\<lambda>items.
           ebind (efold remote_item items org_data) (\<lambda>org_data.
             remote_orgs loads rhsm_log orgs rest (stored @ [org]) org_data))))))"

definition mappings_remote :: "(string \<Rightarrow> pyval option) \<Rightarrow> string \<Rightarrow> error + pyval" where
  "mappings_remote loads rhsm_log =
     (let orgs = re_findall flags_none re_orgs rhsm_log in
      if length orgs > 0 then remote_orgs loads rhsm_log orgs orgs [] []
      else Inr (PDict []))"

definition mappings :: "runner \<Rightarrow> (string \<Rightarrow> pyval option) \<Rightarrow> string \<Rightarrow> error + pyval" where
  "mappings self loads rhsm_log =
     (if mode self = ''local'' then mappings_local loads rhsm_log
      else mappings_remote loads rhsm_log)"

subsection \<open>The hypervisor of the configured guest\<close>

text \<open>\<^verbatim>\<open>get_hypervisor_handler\<close> of \<^verbatim>\<open>configure.py\<close>: the name of the settings section.\<close>

definition get_hypervisor_handler :: "string \<Rightarrow> string" where
  "get_hypervisor_handler m =
     (if m \<in> set [''xen'', ''hyperv'', ''rhevm'', ''libvirt'', ''kubevirt'', ''ahv'', ''local'']
      then m else ''esx'')"

fun hypervisor_id_loop :: "pyval \<Rightarrow> pyval \<Rightarrow> pyval list \<Rightarrow> error + pyval" where
  "hypervisor_id_loop mapping guest_uuid [] = Inr (PStr [])"
| "hypervisor_id_loop mapping guest_uuid (org # rest) =
     ebind (py_subscript mapping org) (\<lambda>org_dict.
     ebind (py_keys org_dict) (\<lambda>ks.
       if key_in guest_uuid ks then
         ebind (py_subscript mapping org) (\<lambda>d.
         ebind (py_subscript d guest_uuid) (\<lambda>g.
           py_getitem g ''guest_hypervisor''))
       else hypervisor_id_loop mapping guest_uuid rest))"

text \<open>\<^verbatim>\<open>hypervisor_id\<close>; \<open>guest_uuid\<close> gives the \<^verbatim>\<open>guest_uuid\<close> of a settings section.\<close>

definition hypervisor_id :: "runner \<Rightarrow> (string \<Rightarrow> string) \<Rightarrow> pyval \<Rightarrow> error + pyval" where
  "hypervisor_id self guest_uuid mapping =
     (if py_truth mapping then
        ebind (py_getitem mapping ''orgs'') (\<lambda>orgs.
        ebind (py_iter orgs) (\<lambda>org_list.
          hypervisor_id_loop mapping (PStr (guest_uuid (get_hypervisor_handler (mode self)))) org_list))
      else Inr (PStr []))"

text \<open>The debug marker \<^verbatim>\<open>send_number\<close> looks for.\<close>

definition debug_marker :: "string \<Rightarrow> bool" where
  "debug_marker rhsm_log =
     (str_in ''virtwho.main DEBUG'' rhsm_log \<or> str_in ''rhsm.connection DEBUG'' rhsm_log)"

section \<open>The remote host, time and the trace\<close>

text \<open>
  The harness reaches the host through \<^verbatim>\<open>ssh.runcmd\<close>, waits with \<^verbatim>\<open>time.sleep\<close> and
  starts the agent in a thread of its own. What the host answers is not decided by the
  harness: the host, the clock and the started agent are a world \<open>'w\<close> with three
  transitions. \<open>exec\<close> runs a command and gives its return code and output, \<open>pass\<close> lets
  seconds go by, \<open>fork\<close> starts a command whose effects show in the later answers of the
  world. The harness keeps a trace of what it did: the commands with their answers, the
  sleeps, the started commands, and the messages \<^verbatim>\<open>run_start\<close> and \<^verbatim>\<open>rhsm_log_get\<close> log.
\<close>

record 'w remote =
  exec :: "string \<Rightarrow> 'w \<Rightarrow> (int \<times> string) \<times> 'w"
  pass :: "nat \<Rightarrow> 'w \<Rightarrow> 'w"
  fork :: "string \<Rightarrow> 'w \<Rightarrow> 'w"

datatype event = Cmd string int string | Sleep nat | Spawn string | Log string

record 'w state =
  world :: 'w
  trace :: "event list"

definition runcmd :: "'w remote \<Rightarrow> string \<Rightarrow> 'w state \<Rightarrow> (int \<times> string) \<times> 'w state" where
  "runcmd R cmd s =
     (case exec R cmd (world s) of
        ((ret, output), w) \<Rightarrow>
          ((ret, output), \<lparr>world = w, trace = trace s @ [Cmd cmd ret output]\<rparr>))"

definition sleep :: "'w remote \<Rightarrow> nat \<Rightarrow> 'w state \<Rightarrow> 'w state" where
  "sleep R n s = \<lparr>world = pass R n (world s), trace = trace s @ [Sleep n]\<rparr>"

definition spawn :: "'w remote \<Rightarrow> string \<Rightarrow> 'w state \<Rightarrow> 'w state" where
  "spawn R cmd s = \<lparr>world = fork R cmd (world s), trace = trace s @ [Spawn cmd]\<rparr>"

definition logger :: "string \<Rightarrow> 'w state \<Rightarrow> 'w state" where
  "logger m s = \<lparr>world = world s, trace = trace s @ [Log m]\<rparr>"

text \<open>Sequencing of steps that may raise.\<close>

definition sbind ::
  "('s \<Rightarrow> (error + 'a) \<times> 's) \<Rightarrow> ('a \<Rightarrow> 's \<Rightarrow> (error + 'b) \<times> 's) \<Rightarrow> 's \<Rightarrow> (error + 'b) \<times> 's" where
  "sbind m f s = (case m s of (Inl e, s') \<Rightarrow> (Inl e, s') | (Inr x, s') \<Rightarrow> f x s')"

definition pure_step :: "error + 'a \<Rightarrow> 's \<Rightarrow> (error + 'a) \<times> 's" where
  "pure_step r s = (r, s)"

definition total_step :: "('s \<Rightarrow> 'a \<times> 's) \<Rightarrow> 's \<Rightarrow> (error + 'a) \<times> 's" where
  "total_step m s = (case m s of (x, s') \<Rightarrow> (Inr x, s'))"

section \<open>Process control\<close>

definition bslash :: char where
  "bslash = CHR 0x5C"

definition upper_char :: "char \<Rightarrow> char" where
  "upper_char c = (case map_of (zip lower_letters upper_letters) c of Some u \<Rightarrow> u | None \<Rightarrow> c)"

text \<open>\<^verbatim>\<open>operate_service\<close>\<close>

definition operate_service ::
  "'w remote \<Rightarrow> string \<Rightarrow> string \<Rightarrow> 'w state \<Rightarrow> (int \<times> string) \<times> 'w state" where
  "operate_service R name action s =
     (case runcmd R (''systemctl '' @ action @ '' '' @ name) s of
        (r, s1) \<Rightarrow> (r, sleep R 10 s1))"

text \<open>\<^verbatim>\<open>kill_pid\<close>; the first command is the five-line pipeline of the source.\<close>

definition kill_cmd :: "string \<Rightarrow> string" where
  "kill_cmd process_name =
     ''ps -ef |'' @ [newline] @ replicate 16 CHR '' '' @ ''grep '' @ process_name @ '' -i |''
     @ [newline] @ replicate 16 CHR '' '' @ ''grep -v grep |''
     @ [newline] @ replicate 16 CHR '' '' @ ''awk '' @ [sq] @ ''{print $2}'' @ [sq] @ '' |''
     @ [newline] @ replicate 16 CHR '' '' @ ''xargs -I {} kill -9 {}''"

definition kill_pid :: "'w remote \<Rightarrow> string \<Rightarrow> 'w state \<Rightarrow> bool \<times> 'w state" where
  "kill_pid R process_name s =
     (case runcmd R (kill_cmd process_name) s of
        (_, s1) \<Rightarrow>
     (case runcmd R (''rm -f /var/run/'' @ process_name @ ''.pid'') s1 of
        (_, s2) \<Rightarrow>
     (case runcmd R (''ps -ef | grep '' @ process_name @ '' -i | grep -v grep |sort'') s2 of
        ((ret, output), s3) \<Rightarrow> (strip output = [], s3))))"

definition stop_failed :: error where
  "stop_failed = FailException ''Failed to stop and clean virt-who process''"

text \<open>\<^verbatim>\<open>stop\<close>\<close>

definition stop :: "'w remote \<Rightarrow> 'w state \<Rightarrow> (error + unit) \<times> 'w state" where
  "stop R s =
     (case operate_service R ''virt-who'' ''stop'' s of
        (_, s1) \<Rightarrow>
     (case kill_pid R ''virt-who'' s1 of
        (killed, s2) \<Rightarrow> if killed then (Inr (), s2) else (Inl stop_failed, s2)))"

text \<open>\<^verbatim>\<open>log_clean\<close>\<close>

definition log_clean :: "'w remote \<Rightarrow> runner \<Rightarrow> 'w state \<Rightarrow> 'w state" where
  "log_clean R self s =
     (case runcmd R ''rm -rf /var/log/rhsm/*'' s of
        (_, s1) \<Rightarrow>
     (case runcmd R (''rm -rf '' @ print_json_file self) s1 of
        (_, s2) \<Rightarrow> s2))"

text \<open>\<^verbatim>\<open>thread_number\<close>\<close>

definition ps_count_cmd :: string where
  "ps_count_cmd = ''ps -ef | grep virt-who -i | grep -v grep |wc -l''"

text \<open>What \<^verbatim>\<open>thread_number\<close> makes of the output of the command.\<close>

definition threads_of :: "string \<Rightarrow> error + int" where
  "threads_of output = (if output \<noteq> [] then py_int (strip output) else Inr 0)"

definition thread_number :: "'w remote \<Rightarrow> 'w state \<Rightarrow> (error + int) \<times> 'w state" where
  "thread_number R s =
     (case runcmd R ps_count_cmd s of
        ((ret, output), s1) \<Rightarrow> (threads_of output, s1))"

section \<open>Polling the log\<close>

text \<open>\<^verbatim>\<open>msg_search(rhsm_output, "status=429")\<close> and
  \<^verbatim>\<open>msg_search(rhsm_output, "\\[.*ERROR.*\\]")\<close>\<close>

definition has_429 :: "string \<Rightarrow> bool" where
  "has_429 rhsm_output = msg_search rhsm_output (one_msg re_429)"

definition has_error :: "string \<Rightarrow> bool" where
  "has_error rhsm_output = msg_search rhsm_output (one_msg re_error)"

definition fetch_cmd :: "runner \<Rightarrow> string" where
  "fetch_cmd self = ''cat '' @ rhsm_log_file self"

definition log_429 :: string where
  "log_429 = ''429 code found when run virt-who''"

definition log_terminated :: string where
  "log_terminated = ''Virt-who is terminated after run once''"

definition log_error :: string where
  "log_error = ''Error found when run virt-who''"

definition log_sent :: string where
  "log_sent = ''Succeed to send mapping after run virt-who''"

definition log_timeout :: string where
  "log_timeout = ''Timeout when run virt-who''"

text \<open>The loop \<^verbatim>\<open>for i in range(30)\<close> of \<^verbatim>\<open>rhsm_log_get\<close>, over the values of \<^verbatim>\<open>i\<close> still
  to come; when they are used up the loop ends and the last text is returned.\<close>

fun rhsm_poll ::
  "'w remote \<Rightarrow> runner \<Rightarrow> nat list \<Rightarrow> string \<Rightarrow> 'w state \<Rightarrow> (error + string) \<times> 'w state" where
  "rhsm_poll R self [] rhsm_output s = (Inr rhsm_output, s)"
| "rhsm_poll R self (i # is) rhsm_output s =
     (case runcmd R (fetch_cmd self) (sleep R 15 s) of
        ((ret, rhsm_output), s1) \<Rightarrow>
          if has_429 rhsm_output then (Inr rhsm_output, logger log_429 s1)
          else
            (case thread_number R s1 of
               (Inl e, s2) \<Rightarrow> (Inl e, s2)
             | (Inr n, s2) \<Rightarrow>
                 if n = 0 then (Inr rhsm_output, logger log_terminated s2)
                 else if has_error rhsm_output then
                   (Inr rhsm_output, logger log_error s2)
                 else if send_number self rhsm_output > 0 then
                   (Inr rhsm_output, logger log_sent s2)
                 else if i = 29 then (Inr rhsm_output, logger log_timeout s2)
                 else rhsm_poll R self is rhsm_output s2))"

text \<open>\<^verbatim>\<open>rhsm_log_get\<close>; \<^verbatim>\<open>if wait:\<close> is false for \<^verbatim>\<open>None\<close> and for 0.\<close>

definition rhsm_log_get ::
  "'w remote \<Rightarrow> runner \<Rightarrow> nat option \<Rightarrow> 'w state \<Rightarrow> (error + string) \<times> 'w state" where
  "rhsm_log_get R self wait s =
     (let s0 = (case wait of None \<Rightarrow> s | Some w \<Rightarrow> if w \<noteq> 0 then sleep R w s else s)
      in rhsm_poll R self [0..<30] [] s0)"

text \<open>\<^verbatim>\<open>start\<close>, run in the thread: the command line, or the restart of the service when
  \<^verbatim>\<open>cli\<close> is \<^verbatim>\<open>None\<close> or empty.\<close>

definition start_cmd :: "string option \<Rightarrow> string" where
  "start_cmd cli =
     (case cli of
        None \<Rightarrow> ''systemctl restart virt-who''
      | Some c \<Rightarrow> if c \<noteq> [] then c else ''systemctl restart virt-who'')"

text \<open>\<^verbatim>\<open>thread_start\<close>\<close>

definition thread_start ::
  "'w remote \<Rightarrow> runner \<Rightarrow> string option \<Rightarrow> nat option \<Rightarrow> 'w state
     \<Rightarrow> (error + string) \<times> 'w state" where
  "thread_start R self cli wait s =
     (case stop R s of
        (Inl e, s1) \<Rightarrow> (Inl e, s1)
      | (Inr _, s1) \<Rightarrow>
          rhsm_log_get R self wait (spawn R (start_cmd cli) (log_clean R self s1)))"

section \<open>Reading a trace\<close>

text \<open>The events a step added to the trace.\<close>

definition new_events :: "'w state \<Rightarrow> 'w state \<Rightarrow> event list" where
  "new_events s s' = drop (length (trace s)) (trace s')"

fun is_fetch :: "runner \<Rightarrow> event \<Rightarrow> bool" where
  "is_fetch self (Cmd c ret output) = (c = fetch_cmd self)"
| "is_fetch self _ = False"

definition n_fetch :: "runner \<Rightarrow> event list \<Rightarrow> nat" where
  "n_fetch self es = length (filter (is_fetch self) es)"

text \<open>Every fetch of the log comes directly after a sleep of 15 seconds; \<open>prev\<close> is the
  event before the list.\<close>

fun spaced :: "runner \<Rightarrow> event option \<Rightarrow> event list \<Rightarrow> bool" where
  "spaced self prev [] = True"
| "spaced self prev (e # es) =
     ((if is_fetch self e then prev = Some (Sleep 15) else True) \<and> spaced self (Some e) es)"

text \<open>
  How a poll that returned the text \<open>out\<close> ended, read from its events, the last one first:
  the message logged at the \<^verbatim>\<open>break\<close>, before it the answer to the count of threads (not
  asked when the 429 marker was found), before that the fetch of \<open>out\<close>. The message tells
  which test fired, and each test fires only when the ones before it did not. \<open>full\<close> says
  that the poll used all its iterations.
\<close>

fun poll_exit :: "runner \<Rightarrow> string \<Rightarrow> bool \<Rightarrow> event list \<Rightarrow> bool" where
  "poll_exit self out full (Log m # Cmd c ret output # rest) =
     (if m = log_429 then c = fetch_cmd self \<and> output = out \<and> has_429 out
      else
        (case rest of
           Cmd c0 ret0 output0 # _ \<Rightarrow>
             c = ps_count_cmd \<and> c0 = fetch_cmd self \<and> output0 = out \<and> \<not> has_429 out \<and>
             (case threads_of output of
                Inl e \<Rightarrow> False
              | Inr k \<Rightarrow>
                  if m = log_terminated then k = 0
                  else k \<noteq> 0 \<and>
                    (if m = log_error then has_error out
                     else \<not> has_error out \<and>
                       (if m = log_sent then send_number self out > 0
                        else m = log_timeout \<and> send_number self out = 0 \<and> full)))
         | _ \<Rightarrow> False))"
| "poll_exit self out full _ = False"

section \<open>A host that answers from a table\<close>

text \<open>An example of a world, for evaluating the harness: every command is answered from a
  fixed table, with return code 0 and no output for a command the table does not have;
  time and the started agent change nothing.\<close>

definition answer_of :: "(string \<times> (int \<times> string)) list \<Rightarrow> string \<Rightarrow> int \<times> string" where
  "answer_of tab cmd = (case map_of tab cmd of Some r \<Rightarrow> r | None \<Rightarrow> (0, []))"

definition table_host :: "(string \<times> (int \<times> string)) list \<Rightarrow> unit remote" where
  "table_host tab =
     \<lparr>exec = (\<lambda>cmd w. (answer_of tab cmd, w)),
      pass = (\<lambda>n w. w),
      fork = (\<lambda>cmd w. w)\<rparr>"

definition start_state :: "unit state" where
  "start_state = \<lparr>world = (), trace = []\<rparr>"

section \<open>The analysers that ask the host\<close>

definition upper_str :: "string \<Rightarrow> string" where
  "upper_str s = map upper_char s"

text \<open>\<^verbatim>\<open>error_warning\<close>: the command is
  \<^verbatim>\<open>grep '\[.*ERROR.*\]' /var/log/rhsm/rhsm.log |sort\<close> for \<^verbatim>\<open>msg='error'\<close>.\<close>

definition error_warning_cmd :: "runner \<Rightarrow> string \<Rightarrow> string" where
  "error_warning_cmd self msg =
     ''grep '' @ [sq, bslash] @ ''[.*'' @ upper_str msg @ ''.*'' @ [bslash] @ '']'' @ [sq]
     @ '' '' @ rhsm_log_file self @ '' |sort''"

definition count_lines :: "string \<Rightarrow> nat" where
  "count_lines output = (if output \<noteq> [] then length (split_on newline (strip output)) else 0)"

definition error_warning ::
  "'w remote \<Rightarrow> runner \<Rightarrow> string \<Rightarrow> 'w state \<Rightarrow> (nat \<times> string) \<times> 'w state" where
  "error_warning R self msg s =
     (case runcmd R (error_warning_cmd self msg) s of
        ((ret, output), s1) \<Rightarrow> ((count_lines output, output), s1))"

text \<open>\<^verbatim>\<open>loop_number\<close>. The first command is the three-line pipeline of the source. The test
  \<^verbatim>\<open>output is not None or output != ""\<close> before \<^verbatim>\<open>int(output)\<close> is always true.\<close>

definition re_report_name :: regex where
  "re_report_name = lit ''Report for config '' @ [One (Lit dq), GOpen, Lazy Dot, GClose, One (Lit dq)]"

definition loop_first_cmd :: "runner \<Rightarrow> string" where
  "loop_first_cmd self =
     ''grep '' @ [sq] @ ''Report for config'' @ [sq] @ '' '' @ rhsm_log_file self @ '' |''
     @ [newline] @ replicate 17 CHR '' '' @ ''grep '' @ [sq] @ ''placing in datastore'' @ [sq] @ '' |''
     @ [newline] @ replicate 17 CHR '' '' @ ''head -1''"

definition loop_key :: "string \<Rightarrow> string" where
  "loop_key name = ''Report for config '' @ [dq] @ name @ [dq] @ '' gathered, placing in datastore''"

definition loop_count_cmd :: "runner \<Rightarrow> string \<Rightarrow> string" where
  "loop_count_cmd self key = ''grep '' @ [sq] @ key @ [sq] @ '' '' @ rhsm_log_file self @ '' | wc -l''"

definition loop_number ::
  "'w remote \<Rightarrow> runner \<Rightarrow> 'w state \<Rightarrow> (error + (string \<times> int)) \<times> 'w state" where
  "loop_number R self s =
     (case runcmd R (loop_first_cmd self) s of
        ((ret, output), s1) \<Rightarrow>
          (case re_findall flags_none re_report_name output of
             [] \<Rightarrow> (Inr ([], 0), s1)
           | name # _ \<Rightarrow>
               if output \<noteq> [] then
                 (case runcmd R (loop_count_cmd self (loop_key name)) s1 of
                    ((ret2, output2), s2) \<Rightarrow>
                      (case py_int output2 of
                         Inl e \<Rightarrow> (Inl e, s2)
                       | Inr n \<Rightarrow> (Inr (loop_key name, n - 1), s2)))
               else (Inr ([], 0), s1)))"

text \<open>\<^verbatim>\<open>loop_info\<close>\<close>

definition re_clock :: regex where
  "re_clock = [One Digit, One Digit, One (Lit CHR '':''), One Digit, One Digit,
               One (Lit CHR '':''), One Digit, One Digit]"

definition loop_head_cmd :: "runner \<Rightarrow> string \<Rightarrow> string" where
  "loop_head_cmd self key = ''grep '' @ [sq] @ key @ [sq] @ '' '' @ rhsm_log_file self @ '' | head -2''"

text \<open>\<^verbatim>\<open>re.findall(r"\d{2}:\d{2}:\d{2}", line)[0]\<close>\<close>

definition first_clock :: "string \<Rightarrow> error + string" where
  "first_clock line =
     (case re_findall flags_none re_clock line of [] \<Rightarrow> Inl IndexError | d # _ \<Rightarrow> Inr d)"

text \<open>\<^verbatim>\<open>h, m, s = d.strip().split(":")\<close> and the seconds since midnight.\<close>

definition clock_seconds :: "string \<Rightarrow> error + int" where
  "clock_seconds d =
     (case split_on CHR '':'' (strip d) of
        [h, m, s] \<Rightarrow>
          ebind (py_int h) (\<lambda>hh.
          ebind (py_int m) (\<lambda>mm.
          ebind (py_int s) (\<lambda>ss. Inr (hh * 3600 + mm * 60 + ss))))
      | _ \<Rightarrow> Inl ValueError)"

definition loop_time_of :: "string \<Rightarrow> error + int" where
  "loop_time_of output =
     (case split_on newline output of
        [] \<Rightarrow> Inr (- 1)
      | l0 # ls \<Rightarrow>
          ebind (first_clock l0) (\<lambda>d1.
          ebind (case ls of [] \<Rightarrow> Inl IndexError | l1 # _ \<Rightarrow> first_clock l1) (\<lambda>d2.
          ebind (clock_seconds d1) (\<lambda>s1.
          ebind (clock_seconds d2) (\<lambda>s2. Inr (s2 - s1))))))"

definition loop_info ::
  "'w remote \<Rightarrow> runner \<Rightarrow> 'w state \<Rightarrow> (error + (int \<times> int)) \<times> 'w state" where
  "loop_info R self s =
     (case loop_number R self s of
        (Inl e, s1) \<Rightarrow> (Inl e, s1)
      | (Inr (key, loop_num), s1) \<Rightarrow>
          if loop_num \<noteq> 0 then
            (case runcmd R (loop_head_cmd self key) s1 of
               ((ret, output), s2) \<Rightarrow>
                 (case loop_time_of output of
                    Inl e \<Rightarrow> (Inl e, s2)
                  | Inr loop_time \<Rightarrow> (Inr (loop_time, loop_num), s2)))
          else (Inr (- 1, loop_num), s1))"

text \<open>\<^verbatim>\<open>print_json\<close>\<close>

definition print_json :: "'w remote \<Rightarrow> runner \<Rightarrow> 'w state \<Rightarrow> string option \<times> 'w state" where
  "print_json R self s =
     (case runcmd R (''cat '' @ print_json_file self) s of
        ((ret, output), s1) \<Rightarrow> (if ret = 0 \<and> output \<noteq> [] then Some output else None, s1))"

section \<open>The analyser\<close>

text \<open>The dictionary \<^verbatim>\<open>analyzer\<close> returns; the field \<open>d_x\<close> is \<^verbatim>\<open>data['x']\<close>.\<close>

record analysis =
  d_debug :: bool
  d_oneshot :: bool
  d_terminate :: bool
  d_thread :: int
  d_send :: nat
  d_reporter_id :: "string option"
  d_interval :: "int option"
  d_loop :: int
  d_loop_num :: int
  d_mappings :: pyval
  d_hypervisor_id :: pyval
  d_print_json :: "string option"
  d_error :: nat
  d_error_msg :: string
  d_warning :: nat
  d_warning_msg :: string

text \<open>What the analyser takes from outside the host: \<^verbatim>\<open>json.loads\<close> and the
  \<^verbatim>\<open>guest_uuid\<close> of the settings sections.\<close>

record env =
  loads :: "string \<Rightarrow> pyval option"
  guest_uuid :: "string \<Rightarrow> string"

text \<open>\<^verbatim>\<open>analyzer\<close>: the fields are computed in the order of the source, and the first
  exception ends the call.\<close>

definition analyzer ::
  "'w remote \<Rightarrow> runner \<Rightarrow> env \<Rightarrow> string \<Rightarrow> 'w state \<Rightarrow> (error + analysis) \<times> 'w state" where
  "analyzer R self E rhsm_log =
     sbind (pure_step (Inr (msg_search rhsm_log (one_msg re_debug)))) (\<lambda>debug.
     sbind (pure_step (Inr (msg_search rhsm_log (one_msg re_oneshot)))) (\<lambda>oneshot.
     sbind (pure_step (Inr (msg_search rhsm_log (one_msg re_terminated)))) (\<lambda>terminate.
     sbind (thread_number R) (\<lambda>thread.
     sbind (pure_step (Inr (send_number self rhsm_log))) (\<lambda>send.
     sbind (pure_step (Inr (reporter_id rhsm_log))) (\<lambda>rep.
     sbind (pure_step (interval_time rhsm_log)) (\<lambda>interval.
     sbind (loop_info R self) (\<lambda>(loop, loop_num).
     sbind (pure_step (mappings self (loads E) rhsm_log)) (\<lambda>maps.
     sbind (pure_step (hypervisor_id self (guest_uuid E) maps)) (\<lambda>hyp.
     sbind (total_step (print_json R self)) (\<lambda>pj.
     sbind (total_step (error_warning R self ''error'')) (\<lambda>(err, err_msg).
     sbind (total_step (error_warning R self ''warning'')) (\<lambda>(warn, warn_msg).
       pure_step (Inr
         \<lparr>d_debug = debug, d_oneshot = oneshot, d_terminate = terminate, d_thread = thread,
          d_send = send, d_reporter_id = rep, d_interval = interval, d_loop = loop,
          d_loop_num = loop_num, d_mappings = maps, d_hypervisor_id = hyp,
          d_print_json = pj, d_error = err, d_error_msg = err_msg,
          d_warning = warn, d_warning_msg = warn_msg\<rparr>))))))))))))))"

section \<open>The run loop\<close>

definition run_exhausted :: error where
  "run_exhausted = FailException ''Failed to run virt-who service.''"

definition has_500 :: "string \<Rightarrow> bool" where
  "has_500 rhsm_output = msg_search rhsm_output (one_msg re_500)"

definition log_retry_429 :: "nat \<Rightarrow> string" where
  "log_retry_429 wait_time =
     ''429 code found, re-register virt-who host and try again after '' @ str_nat wait_time
     @ '' seconds...''"

definition log_retry_500 :: string where
  "log_retry_500 = ''RemoteServerException return 500 code, restart virt-who again after 60s''"

text \<open>The loop \<^verbatim>\<open>for i in range(4)\<close> of \<^verbatim>\<open>run_start\<close>, over the values of \<^verbatim>\<open>i\<close> still to
  come; when they are used up the \<^verbatim>\<open>raise\<close> after the loop is reached.\<close>

fun run_loop ::
  "'w remote \<Rightarrow> runner \<Rightarrow> env \<Rightarrow> string option \<Rightarrow> nat option \<Rightarrow> nat list \<Rightarrow> 'w state
     \<Rightarrow> (error + analysis) \<times> 'w state" where
  "run_loop R self E cli wait [] s = (Inl run_exhausted, s)"
| "run_loop R self E cli wait (i # is) s =
     (case thread_start R self cli wait s of
        (Inl e, s1) \<Rightarrow> (Inl e, s1)
      | (Inr rhsm_output, s1) \<Rightarrow>
          if has_429 rhsm_output then
            (let wait_time = 60 * (i + 3)
             in run_loop R self E cli wait is (sleep R wait_time (logger (log_retry_429 wait_time) s1)))
          else if has_500 rhsm_output then
            run_loop R self E cli wait is (sleep R 60 (logger log_retry_500 s1))
          else analyzer R self E rhsm_output s1)"

definition run_start ::
  "'w remote \<Rightarrow> runner \<Rightarrow> env \<Rightarrow> string option \<Rightarrow> nat option \<Rightarrow> 'w state
     \<Rightarrow> (error + analysis) \<times> 'w state" where
  "run_start R self E cli wait s = run_loop R self E cli wait [0..<4] s"

text \<open>\<^verbatim>\<open>run_cli\<close> and \<^verbatim>\<open>run_service\<close>\<close>

definition run_cli ::
  "'w remote \<Rightarrow> runner \<Rightarrow> env \<Rightarrow> bool \<Rightarrow> bool \<Rightarrow> int option \<Rightarrow> bool \<Rightarrow> string option
     \<Rightarrow> nat option \<Rightarrow> 'w state \<Rightarrow> (error + analysis) \<times> 'w state" where
  "run_cli R self E debug oneshot interval prt config wait s =
     run_start R self E (Some (run_cli_cmd self debug oneshot interval prt config)) wait s"

definition run_service ::
  "'w remote \<Rightarrow> runner \<Rightarrow> env \<Rightarrow> nat option \<Rightarrow> 'w state \<Rightarrow> (error + analysis) \<times> 'w state" where
  "run_service R self E wait s = run_start R self E None wait s"

text \<open>The launches in a trace.\<close>

fun is_spawn :: "event \<Rightarrow> bool" where
  "is_spawn (Spawn c) = True"
| "is_spawn _ = False"

definition n_spawn :: "event list \<Rightarrow> nat" where
  "n_spawn es = length (filter is_spawn es)"

text \<open>The state in which the next attempt starts after an attempt that captured \<open>out\<close> with a
  retry marker, read off the two retry branches of \<^verbatim>\<open>run_start\<close>.\<close>

definition after_retry :: "'w remote \<Rightarrow> nat \<Rightarrow> string \<Rightarrow> 'w state \<Rightarrow> 'w state" where
  "after_retry R i out a =
     (if has_429 out then sleep R (60 * (i + 3)) (logger (log_retry_429 (60 * (i + 3))) a)
      else sleep R 60 (logger log_retry_500 a))"

text \<open>A step from \<open>s\<close> to \<open>s'\<close> only adds events, \<open>k\<close> launches among them; a computation is
  quiet when it launches nothing.\<close>

definition extends :: "'w state \<Rightarrow> 'w state \<Rightarrow> nat \<Rightarrow> bool" where
  "extends s s' k = (\<exists>new. trace s' = trace s @ new \<and> n_spawn new = k)"

definition quiet :: "('w state \<Rightarrow> 'a \<times> 'w state) \<Rightarrow> bool" where
  "quiet m = (\<forall>s r s'. m s = (r, s') \<longrightarrow> extends s s' 0)"

text \<open>An example of the analyser's surroundings: \<^verbatim>\<open>json.loads\<close> given by a table of texts
  and their values (a text the table does not have does not parse), and one
  \<^verbatim>\<open>guest_uuid\<close> for every settings section.\<close>

definition table_env :: "(string \<times> pyval) list \<Rightarrow> string \<Rightarrow> env" where
  "table_env tab g = \<lparr>loads = map_of tab, guest_uuid = (\<lambda>section. g)\<rparr>"

section \<open>Example logs\<close>

text \<open>A remote-mode log with two organizations: the block sent to \<^verbatim>\<open>A\<close> has one hypervisor,
  the block sent to \<^verbatim>\<open>B\<close> has none. The values are what \<^verbatim>\<open>json.loads\<close> gives for the two
  blocks.\<close>

definition block_A :: string where
  \<open>block_A = ''{"hypervisors": [{"hypervisorId": {"hypervisorId": "h1"}, "facts": {"hypervisor.type": "t", "hypervisor.version": "v", "cpu.cpu_socket(s)": "1", "dmi.system.uuid": "u"}, "guestIds": []}]}''\<close>

definition block_B :: string where
  \<open>block_B = ''{"hypervisors": []}''\<close>

definition value_A :: pyval where
  "value_A =
     PDict [(PStr ''hypervisors'',
       PList [PDict [(PStr ''hypervisorId'', PDict [(PStr ''hypervisorId'', PStr ''h1'')]),
                     (PStr ''facts'',
                        PDict [(PStr ''hypervisor.type'', PStr ''t''),
                               (PStr ''hypervisor.version'', PStr ''v''),
                               (PStr ''cpu.cpu_socket(s)'', PStr ''1''),
                               (PStr ''dmi.system.uuid'', PStr ''u'')]),
                     (PStr ''guestIds'', PList [])]])]"

definition value_B :: pyval where
  "value_B = PDict [(PStr ''hypervisors'', PList [])]"

definition two_org_log :: string where
  "two_org_log =
     ''2021-01-01 10:00:00 Host-to-guest mapping being sent to '' @ [sq] @ ''A'' @ [sq] @ '': ''
     @ block_A @ [newline]
     @ ''2021-01-01 10:00:01 Host-to-guest mapping being sent to '' @ [sq] @ ''B'' @ [sq] @ '': ''
     @ block_B @ [newline]"

definition two_org_loads :: "string \<Rightarrow> pyval option" where
  "two_org_loads = map_of [(block_A, value_A), (block_B, value_B)]"

text \<open>A local-mode log with one guest, and what \<^verbatim>\<open>json.loads\<close> gives for its array.\<close>

definition domain_array :: string where
  \<open>domain_array = ''[{"guestId": "g1", "state": 1, "attributes": {"active": 1, "virtWhoType": "libvirt"}}]''\<close>

definition domain_value :: pyval where
  "domain_value =
     PList [PDict [(PStr ''guestId'', PStr ''g1''), (PStr ''state'', PInt 1),
                   (PStr ''attributes'',
                      PDict [(PStr ''active'', PInt 1), (PStr ''virtWhoType'', PStr ''libvirt'')])]]"

definition domain_log :: string where
  "domain_log = ''Domain info: '' @ domain_array @ [newline]"

section \<open>A host that holds a log\<close>

text \<open>
  What the host's tools answer to the commands of \<^verbatim>\<open>error_warning\<close>, \<^verbatim>\<open>loop_number\<close> and
  \<^verbatim>\<open>loop_info\<close> when the log file holds a given text. \<^verbatim>\<open>grep\<close> selects lines and is
  sensitive to case; \<^verbatim>\<open>sort\<close> orders the lines (by bytes here; the order plays no part in
  a count); \<^verbatim>\<open>head -n\<close> keeps the first lines; \<^verbatim>\<open>wc -l\<close> prints their number. Every line
  of an output ends with a line feed.
\<close>

definition lines_of :: "string \<Rightarrow> string list" where
  "lines_of text = (let ps = split_on newline text in if last ps = [] then butlast ps else ps)"

definition unlines :: "string list \<Rightarrow> string" where
  "unlines ls = concat (map (\<lambda>l. l @ [newline]) ls)"

fun str_le :: "string \<Rightarrow> string \<Rightarrow> bool" where
  "str_le [] ys = True"
| "str_le (x # xs) [] = False"
| "str_le (x # xs) (y # ys) =
     ((of_char x :: nat) < of_char y \<or> (x = y \<and> str_le xs ys))"

fun insert_line :: "string \<Rightarrow> string list \<Rightarrow> string list" where
  "insert_line l [] = [l]"
| "insert_line l (m # ms) = (if str_le l m then l # m # ms else m # insert_line l ms)"

definition sort_lines :: "string list \<Rightarrow> string list" where
  "sort_lines ls = foldr insert_line ls []"

text \<open>The pattern \<^verbatim>\<open>\[.*TAG.*\]\<close> of \<^verbatim>\<open>error_warning\<close>, and the lines \<^verbatim>\<open>grep\<close> selects for
  a pattern and for a text without special characters.\<close>

definition re_tag :: "string \<Rightarrow> regex" where
  "re_tag t = [One (Lit CHR ''[''), Star Dot] @ lit t @ [Star Dot, One (Lit CHR '']'')]"

definition line_matches :: "regex \<Rightarrow> string \<Rightarrow> bool" where
  "line_matches p l = (re_findall flags_none p l \<noteq> [])"

definition grep_lines :: "regex \<Rightarrow> string \<Rightarrow> string list" where
  "grep_lines p text = filter (line_matches p) (lines_of text)"

definition grep_fixed :: "string \<Rightarrow> string \<Rightarrow> string list" where
  "grep_fixed k text = filter (str_in k) (lines_of text)"

text \<open>A config name that \<^verbatim>\<open>grep\<close> and the shell read as it is written: without backslash,
  bracket, dot, star and single quote.\<close>

definition plain :: "string \<Rightarrow> bool" where
  "plain name = list_all (\<lambda>c. c \<notin> set [bslash, CHR ''['', CHR ''.'', CHR ''*'', sq]) name"

text \<open>The answer to the first command of \<^verbatim>\<open>loop_number\<close>.\<close>

definition first_report :: "string \<Rightarrow> string" where
  "first_report text =
     unlines (take 1 (filter (str_in ''placing in datastore'')
                        (grep_fixed ''Report for config'' text)))"

text \<open>The table of the host for a log text. The two commands that carry the key are
  answered for the key \<^verbatim>\<open>loop_number\<close> builds from this log, when its name is plain.\<close>

definition log_table :: "runner \<Rightarrow> string \<Rightarrow> (string \<times> (int \<times> string)) list" where
  "log_table self text =
     (case re_findall flags_none re_report_name (first_report text) of
        [] \<Rightarrow> []
      | name # _ \<Rightarrow>
          if plain name then
            [(loop_count_cmd self (loop_key name),
                (0, str_nat (length (grep_fixed (loop_key name) text)) @ [newline])),
             (loop_head_cmd self (loop_key name),
                (0, unlines (take 2 (grep_fixed (loop_key name) text))))]
          else [])
     @ [(loop_first_cmd self, (0, first_report text)),
        (error_warning_cmd self ''error'', (0, unlines (sort_lines (grep_lines (re_tag ''ERROR'') text)))),
        (error_warning_cmd self ''warning'',
           (0, unlines (sort_lines (grep_lines (re_tag ''WARNING'') text)))),
        (fetch_cmd self, (0, text))]"

definition log_host :: "runner \<Rightarrow> string \<Rightarrow> unit remote" where
  "log_host self text = table_host (log_table self text)"

text \<open>The number of occurrences of a phrase in a text.\<close>

definition occurrences :: "string \<Rightarrow> string \<Rightarrow> nat" where
  "occurrences phrase text = length (re_findall flags_none (lit phrase) text)"

text \<open>A line without a line feed that is not blank.\<close>

definition solid :: "string \<Rightarrow> bool" where
  "solid l = (newline \<notin> set l \<and> (\<exists>c\<in>set l. \<not> is_space c))"

text \<open>A log with one \<^verbatim>\<open>[ERROR]\<close> line and one \<^verbatim>\<open>[WARNING]\<close> line, and a log whose only tag
  is in lower case.\<close>

definition tagged_log :: string where
  "tagged_log = ''2021-01-01 10:02:00 [ERROR] boom'' @ [newline]
     @ ''2021-01-01 10:02:01 [WARNING] hm'' @ [newline]"

definition lower_tag_log :: string where
  "lower_tag_log = ''[error] x'' @ [newline]"

text \<open>Logs for the loop count: two timestamped reports 65 seconds apart; one line that holds
  the phrase twice; two reports without a timestamp.\<close>

definition clock_log :: string where
  "clock_log =
     ''2021-01-01 10:00:00 [INFO] '' @ loop_key ''esx'' @ [newline]
     @ ''2021-01-01 10:01:05 [INFO] '' @ loop_key ''esx'' @ [newline]"

definition twice_log :: string where
  "twice_log = loop_key ''a'' @ '' '' @ loop_key ''a'' @ [newline]"

definition untimed_log :: string where
  "untimed_log = loop_key ''a'' @ [newline] @ loop_key ''a'' @ [newline]"

text \<open>The sleep \<^verbatim>\<open>rhsm_log_get\<close> makes before its loop.\<close>

definition wait_events :: "nat option \<Rightarrow> event list" where
  "wait_events wait = (case wait of None \<Rightarrow> [] | Some w \<Rightarrow> if w \<noteq> 0 then [Sleep w] else [])"

text \<open>
  The whole of a poll, replayed from its events. The events from iteration \<open>i\<close> on are a
  sleep of 15 seconds and the fetch of a text \<open>out\<close>; then, when \<open>out\<close> has the 429 marker,
  the message of that \<^verbatim>\<open>break\<close> and nothing more; else the answer to the count of threads
  and then: nothing more when the answer is no number (the exception ends the poll); the
  message of the second \<^verbatim>\<open>break\<close> when the count is zero; else that of the third when
  \<open>out\<close> has an ERROR line; else that of the fourth when the send count is above zero; else
  that of the timeout when \<open>i\<close> is 29; else the events of iteration \<open>i + 1\<close>. \<open>r\<close> is what the
  poll returns: the text of the iteration that ended it, or the exception.
\<close>

fun poll_script :: "runner \<Rightarrow> nat \<Rightarrow> error + string \<Rightarrow> event list \<Rightarrow> bool" where
  "poll_script self i r (Sleep n # Cmd c ret out # rest) =
     (n = 15 \<and> c = fetch_cmd self \<and> i < 30 \<and>
      (if has_429 out then rest = [Log log_429] \<and> r = Inr out
       else
         (case rest of
            Cmd c' ret' output # rest' \<Rightarrow>
              c' = ps_count_cmd \<and>
              (case threads_of output of
                 Inl e \<Rightarrow> rest' = [] \<and> r = Inl e
               | Inr k \<Rightarrow>
                   if k = 0 then rest' = [Log log_terminated] \<and> r = Inr out
                   else if has_error out then rest' = [Log log_error] \<and> r = Inr out
                   else if send_number self out > 0 then rest' = [Log log_sent] \<and> r = Inr out
                   else if i = 29 then rest' = [Log log_timeout] \<and> r = Inr out
                   else poll_script self (Suc i) r rest')
          | _ \<Rightarrow> False)))"
| "poll_script self i r _ = False"

text \<open>An event at which no test of the poll fires: a fetched text without the 429 marker,
  without an ERROR line and with send count zero, or a count of threads that is a number
  other than zero.\<close>

fun calm_event :: "runner \<Rightarrow> event \<Rightarrow> bool" where
  "calm_event self (Cmd c ret output) =
     (if c = fetch_cmd self then
        \<not> has_429 output \<and> \<not> has_error output \<and> send_number self output = 0
      else if c = ps_count_cmd then
        (case threads_of output of Inl e \<Rightarrow> False | Inr k \<Rightarrow> k \<noteq> 0)
      else True)"
| "calm_event self _ = True"

text \<open>An example of a world that counts the fetches of the log: the log is empty at the
  first two fetches and holds an ERROR line from the third on, and the count of threads is
  always 1.\<close>

definition late_error_host :: "runner \<Rightarrow> nat remote" where
  "late_error_host self =
     \<lparr>exec = (\<lambda>cmd w.
         if cmd = fetch_cmd self then ((0, if w < 2 then [] else ''[ERROR]''), Suc w)
         else if cmd = ps_count_cmd then ((0, ''1''), w)
         else ((0, []), w)),
      pass = (\<lambda>n w. w),
      fork = (\<lambda>cmd w. w)\<rparr>"

text \<open>
  A remote-mode log of a run with debug output: the reporter id, the interval, two reports
  of the config \<^verbatim>\<open>esx\<close> 65 seconds apart, the block sent to the organization \<^verbatim>\<open>A\<close> with the
  hypervisor \<^verbatim>\<open>h1\<close> and its guest \<^verbatim>\<open>g1\<close>, the answer to the POST, an ERROR line, a WARNING
  line, a thread that stopped and the end of the agent. \<open>value_G\<close> is what \<^verbatim>\<open>json.loads\<close>
  gives for the block.
\<close>

definition block_G :: string where
  \<open>block_G = ''{"hypervisors": [{"hypervisorId": {"hypervisorId": "h1"}, "name": "n1", "facts": {"hypervisor.type": "t", "hypervisor.version": "v", "cpu.cpu_socket(s)": "1", "dmi.system.uuid": "u"}, "guestIds": [{"guestId": "g1", "state": 1, "attributes": {"active": 1, "virtWhoType": "esx"}}]}]}''\<close>

definition value_G :: pyval where
  "value_G =
     PDict [(PStr ''hypervisors'',
       PList [PDict [(PStr ''hypervisorId'', PDict [(PStr ''hypervisorId'', PStr ''h1'')]),
                     (PStr ''name'', PStr ''n1''),
                     (PStr ''facts'',
                        PDict [(PStr ''hypervisor.type'', PStr ''t''),
                               (PStr ''hypervisor.version'', PStr ''v''),
                               (PStr ''cpu.cpu_socket(s)'', PStr ''1''),
                               (PStr ''dmi.system.uuid'', PStr ''u'')]),
                     (PStr ''guestIds'',
                        PList [PDict [(PStr ''guestId'', PStr ''g1''), (PStr ''state'', PInt 1),
                                      (PStr ''attributes'',
                                         PDict [(PStr ''active'', PInt 1),
                                                (PStr ''virtWhoType'', PStr ''esx'')])]])]])]"

definition rich_log :: string where
  \<open>rich_log =
     ''2021-01-01 10:00:00 [virtwho.main DEBUG] reporter_id='' @ [sq] @ ''rep1'' @ [sq] @ [newline]
     @ ''2021-01-01 10:00:01 [virtwho.main DEBUG] Starting infinite loop with 60 seconds interval''
     @ [newline]
     @ ''2021-01-01 10:00:02 [virtwho.main DEBUG] Report for config "esx" gathered, placing in datastore''
     @ [newline]
     @ ''2021-01-01 10:00:03 [virtwho.main DEBUG] Host-to-guest mapping being sent to ''
     @ [sq] @ ''A'' @ [sq] @ '': '' @ block_G @ [newline]
     @ ''2021-01-01 10:00:04 [rhsm.connection DEBUG] Response: status=200, requestUuid=x, request="POST /subscription/hypervisors/A"''
     @ [newline]
     @ ''2021-01-01 10:00:05 [virtwho.main ERROR] no connection'' @ [newline]
     @ ''2021-01-01 10:00:06 [virtwho.main WARNING] slow answer'' @ [newline]
     @ ''2021-01-01 10:01:07 [virtwho.main DEBUG] Report for config "esx" gathered, placing in datastore''
     @ [newline]
     @ ''2021-01-01 10:01:08 [virtwho.main DEBUG] Thread '' @ [sq] @ ''esx'' @ [sq]
     @ '' stopped after running once'' @ [newline]
     @ ''2021-01-01 10:01:09 [virtwho.main DEBUG] virt-who terminated'' @ [newline]\<close>

definition rich_env :: env where
  "rich_env = table_env [(block_G, value_G)] ''g1''"

text \<open>A host that does not hold that log: two threads of the agent, a file of printed
  mappings, two ERROR lines and nothing else.\<close>

definition other_host :: "runner \<Rightarrow> unit remote" where
  "other_host self =
     table_host [(ps_count_cmd, (0, ''2'' @ [newline])),
                 (''cat '' @ print_json_file self, (0, ''{}'')),
                 (error_warning_cmd self ''error'',
                    (0, ''[ERROR] a'' @ [newline] @ ''[ERROR] b'' @ [newline]))]"

text \<open>What \<^verbatim>\<open>mappings\<close> gives for that log.\<close>

definition rich_mappings :: pyval where
  "rich_mappings =
     PDict [(PStr ''orgs'', PList [PStr ''A'']),
            (PStr ''A'',
             PDict [(PStr ''hypervisor_num'', PInt 1),
                    (PStr ''g1'',
                     PDict [(PStr ''guest_hypervisor'', PStr ''h1''), (PStr ''state'', PInt 1),
                            (PStr ''active'', PInt 1), (PStr ''type'', PStr ''esx'')]),
                    (PStr ''h1'',
                     PDict [(PStr ''name'', PStr ''n1''), (PStr ''type'', PStr ''t''),
                            (PStr ''version'', PStr ''v''), (PStr ''socket'', PStr ''1''),
                            (PStr ''dmi'', PStr ''u''), (PStr ''cluster'', PStr []),
                            (PStr ''guests'', PList [PStr ''g1''])])])]"

section \<open>The command line of \<^verbatim>\<open>run_cli\<close>\<close>

text \<open>
  C10, as stated, at \<^verbatim>\<open>interval=0\<close>: the interval is set, and the truth test
  \<^verbatim>\<open>if interval:\<close> leaves \<^verbatim>\<open>-i\<close> out.
\<close>

theorem run_cli_interval_zero:
  "run_cli_cmd (init_runner ''esx'' ''rhsm'') True True (Some 0) False (Some ''default'')
     = ''virt-who -d -o -c /etc/virt-who.d/esx.conf ''
   \<and> \<not> str_in ''-i '' (run_cli_cmd (init_runner ''esx'' ''rhsm'') True True (Some 0) False
                        (Some ''default''))"
  by (simp add: run_cli_cmd_def init_runner_def Let_def starts_with_def)

text \<open>
  C10, amended: for every option combination the command is \<^verbatim>\<open>virt-who \<close> followed, in this
  order, by \<^verbatim>\<open>-d \<close> exactly when debug is true, \<^verbatim>\<open>-o \<close> exactly when oneshot is true,
  \<^verbatim>\<open>-i <interval> \<close> exactly when the interval is set and is not 0, \<^verbatim>\<open>-p \<close> exactly when
  prt is true, \<^verbatim>\<open>-c <file> \<close> exactly when config is not empty, where the file is
  \<^verbatim>\<open>/etc/virt-who.d/<mode>.conf\<close> for the config \<^verbatim>\<open>default\<close> and the given override
  otherwise, and the redirection to \<^verbatim>\<open>/root/print.json\<close> exactly when prt is true.
\<close>

theorem run_cli_cmd_shape:
  "run_cli_cmd (init_runner m r) debug oneshot interval prt config =
     ''virt-who ''
     @ (if debug then ''-d '' else [])
     @ (if oneshot then ''-o '' else [])
     @ (case interval of
          None \<Rightarrow> []
        | Some i \<Rightarrow> if i = 0 then [] else ''-i '' @ str_int i @ '' '')
     @ (if prt then ''-p '' else [])
     @ (case config of
          None \<Rightarrow> []
        | Some c \<Rightarrow>
            if c = [] then []
            else if c = ''default'' then ''-c /etc/virt-who.d/'' @ m @ ''.conf ''
            else ''-c '' @ c @ '' '')
     @ (if prt then '' > /root/print.json'' else [])"
  by (simp add: run_cli_cmd_def init_runner_def Let_def split: option.splits)

section \<open>The send count\<close>

text \<open>
  C4: for a registration backend \<^verbatim>\<open>rhsm\<close> or \<^verbatim>\<open>satellite\<close>, \<^verbatim>\<open>send_number\<close> counts the
  matches, ignoring case, of one pattern, chosen by three branches that exclude each other:
  the phrase \<^verbatim>\<open>0 hypervisors and 0 guests found\<close> when the log has it; else, when the log has
  a debug marker, the HTTP pattern of the backend and the mode; else the sending phrase of
  the mode.
\<close>

theorem send_number_branches:
  assumes "register_type self = ''rhsm'' \<or> register_type self = ''satellite''"
  shows "(str_in msg_zero l \<longrightarrow> send_number self l = msg_number l (lit msg_zero))
   \<and> (\<not> str_in msg_zero l \<and> debug_marker l \<longrightarrow>
        send_number self l = msg_number l
          (if register_type self = ''satellite''
           then (if mode self = ''local'' then re_sat_put else re_sat_post)
           else (if mode self = ''local'' then re_rhsm_put else re_rhsm_post)))
   \<and> (\<not> str_in msg_zero l \<and> \<not> debug_marker l \<longrightarrow>
        send_number self l = msg_number l
          (if mode self = ''local'' then lit msg_send_local else lit msg_send_remote))"
  using assms
  by (auto simp: send_number_def send_msg_def msg_number_def debug_marker_def starts_with_def
      Let_def)

theorem send_number_branches_witness:
  "send_number (init_runner ''esx'' ''satellite'')
     (''[rhsm.connection DEBUG] Response: status=200, request=''
       @ [dq] @ ''POST /rhsm/hypervisors/org'' @ [dq]) = 1"
proof -
  let ?self = "init_runner ''esx'' ''satellite''"
  let ?l = "''[rhsm.connection DEBUG] Response: status=200, request=''
       @ [dq] @ ''POST /rhsm/hypervisors/org'' @ [dq]"
  have reg: "register_type ?self = ''rhsm'' \<or> register_type ?self = ''satellite''"
    by (simp add: init_runner_def)
  have z: "\<not> str_in msg_zero ?l \<and> debug_marker ?l"
    by code_simp
  have n: "msg_number ?l re_sat_post = 1"
    by code_simp
  from send_number_branches [OF reg, of ?l] z n show ?thesis
    by (simp add: init_runner_def)
qed

section \<open>Polling is bounded\<close>

lemma trace_runcmd:
  "runcmd R c s = ((ret, output), s') \<Longrightarrow> trace s' = trace s @ [Cmd c ret output]"
  by (auto simp: runcmd_def split: prod.splits)

lemma trace_sleep [simp]: "trace (sleep R n s) = trace s @ [Sleep n]"
  by (simp add: sleep_def)

lemma trace_logger [simp]: "trace (logger m s) = trace s @ [Log m]"
  by (simp add: logger_def)

lemma trace_spawn [simp]: "trace (spawn R c s) = trace s @ [Spawn c]"
  by (simp add: spawn_def)

lemma trace_thread_number:
  "thread_number R s = (r, s') \<Longrightarrow>
     \<exists>ret output. trace s' = trace s @ [Cmd ps_count_cmd ret output] \<and> r = threads_of output"
  by (auto simp: thread_number_def dest: trace_runcmd split: prod.splits)

lemma ps_not_fetch [simp]: "ps_count_cmd \<noteq> fetch_cmd self" "fetch_cmd self \<noteq> ps_count_cmd"
  by (simp_all add: ps_count_cmd_def fetch_cmd_def)

lemma spaced_append:
  "spaced self p (a @ b) =
     (spaced self p a \<and> spaced self (if a = [] then p else Some (last a)) b)"
  by (induction a arbitrary: p) auto

lemma n_fetch_append [simp]: "n_fetch self (a @ b) = n_fetch self a + n_fetch self b"
  by (simp add: n_fetch_def)

lemma n_fetch_simps [simp]:
  "n_fetch self [] = 0"
  "n_fetch self (Cmd c ret output # es) = (if c = fetch_cmd self then 1 else 0) + n_fetch self es"
  "n_fetch self (Sleep n # es) = n_fetch self es"
  "n_fetch self (Log m # es) = n_fetch self es"
  "n_fetch self (Spawn c # es) = n_fetch self es"
  by (simp_all add: n_fetch_def)

lemma log_distinct [simp]:
  "distinct [log_429, log_terminated, log_error, log_sent, log_timeout]"
  by (simp add: log_429_def log_terminated_def log_error_def log_sent_def log_timeout_def)

lemma log_neq [simp]:
  "log_terminated \<noteq> log_429" "log_error \<noteq> log_429" "log_sent \<noteq> log_429" "log_timeout \<noteq> log_429"
  "log_error \<noteq> log_terminated" "log_sent \<noteq> log_terminated" "log_timeout \<noteq> log_terminated"
  "log_sent \<noteq> log_error" "log_timeout \<noteq> log_error" "log_timeout \<noteq> log_sent"
  "log_429 \<noteq> log_terminated" "log_429 \<noteq> log_error" "log_429 \<noteq> log_sent" "log_429 \<noteq> log_timeout"
  "log_terminated \<noteq> log_error" "log_terminated \<noteq> log_sent" "log_terminated \<noteq> log_timeout"
  "log_error \<noteq> log_sent" "log_error \<noteq> log_timeout" "log_sent \<noteq> log_timeout"
  using log_distinct by auto

lemma poll_exit_append:
  "poll_exit self out full xs \<Longrightarrow> poll_exit self out full (xs @ ys)"
  by (induction self out full xs rule: poll_exit.induct)
     (auto split: list.splits event.splits if_splits sum.splits)

lemma poll_exit_full:
  "poll_exit self out False xs \<Longrightarrow> poll_exit self out full xs"
  by (induction self out False xs rule: poll_exit.induct)
     (auto split: list.splits event.splits sum.splits if_splits)

lemma rhsm_poll_trace:
  "n = 30 - k \<Longrightarrow> k < 30 \<Longrightarrow> rhsm_poll R self [k..<30] out0 s = (r, s') \<Longrightarrow>
     \<exists>new. trace s' = trace s @ new \<and> n_fetch self new \<le> 30 - k \<and> spaced self None new
       \<and> (\<forall>out. r = Inr out \<longrightarrow> poll_exit self out (n_fetch self new = 30 - k) (rev new))"
proof (induction n arbitrary: k out0 s)
  case 0
  then show ?case by simp
next
  case (Suc n)
  have up: "[k..<30] = k # [Suc k..<30]"
    using Suc.prems(2) by (simp add: upt_conv_Cons)
  obtain ret out s1 where f: "runcmd R (fetch_cmd self) (sleep R 15 s) = ((ret, out), s1)"
    by (metis prod.exhaust)
  have t1: "trace s1 = trace s @ [Sleep 15, Cmd (fetch_cmd self) ret out]"
    using trace_runcmd [OF f] by simp
  show ?case
  proof (cases "has_429 out")
    case True
    with Suc.prems f up have "r = Inr out" "s' = logger log_429 s1" by auto
    with t1 True Suc.prems(2) show ?thesis by (auto simp: spaced_append)
  next
    case no429: False
    obtain tr s2 where tn: "thread_number R s1 = (tr, s2)" by (metis prod.exhaust)
    from trace_thread_number [OF tn] obtain ret' o' where
      t2: "trace s2 = trace s1 @ [Cmd ps_count_cmd ret' o']" and tr: "tr = threads_of o'" by blast
    show ?thesis
    proof (cases tr)
      case (Inl e)
      with Suc.prems f up no429 tn have "r = Inl e" "s' = s2" by auto
      with t1 t2 Suc.prems(2) show ?thesis by (auto simp: spaced_append)
    next
      case (Inr th)
      have tr': "threads_of o' = Inr th" using tr Inr by simp
      consider (stopped) "th = 0"
        | (err) "th \<noteq> 0" "has_error out"
        | (sent) "th \<noteq> 0" "\<not> has_error out" "send_number self out > 0"
        | (tout) "th \<noteq> 0" "\<not> has_error out" "send_number self out = 0" "k = 29"
        | (cont) "th \<noteq> 0" "\<not> has_error out" "send_number self out = 0" "k \<noteq> 29"
        by auto
      then show ?thesis
      proof cases
        case stopped
        with Suc.prems f up no429 tn Inr have "r = Inr out" "s' = logger log_terminated s2" by auto
        with t1 t2 no429 tr' stopped Suc.prems(2) show ?thesis by (auto simp: spaced_append)
      next
        case err
        with Suc.prems f up no429 tn Inr have "r = Inr out" "s' = logger log_error s2" by auto
        with t1 t2 no429 tr' err Suc.prems(2) show ?thesis by (auto simp: spaced_append)
      next
        case sent
        with Suc.prems f up no429 tn Inr have "r = Inr out" "s' = logger log_sent s2" by auto
        with t1 t2 no429 tr' sent Suc.prems(2) show ?thesis by (auto simp: spaced_append)
      next
        case tout
        with Suc.prems f up no429 tn Inr have "r = Inr out" "s' = logger log_timeout s2" by auto
        with t1 t2 no429 tr' tout Suc.prems(2) show ?thesis by (auto simp: spaced_append)
      next
        case cont
        with Suc.prems f up no429 tn Inr have rec: "rhsm_poll R self [Suc k..<30] out s2 = (r, s')"
          by auto
        have "n = 30 - Suc k" "Suc k < 30" using Suc.prems cont by auto
        from Suc.IH [OF this rec] obtain new where
          n1: "trace s' = trace s2 @ new" and n2: "n_fetch self new \<le> 30 - Suc k"
          and n3: "spaced self None new"
          and n4: "\<forall>out. r = Inr out \<longrightarrow> poll_exit self out (n_fetch self new = 30 - Suc k) (rev new)"
          by blast
        let ?new = "[Sleep 15, Cmd (fetch_cmd self) ret out, Cmd ps_count_cmd ret' o'] @ new"
        have a: "trace s' = trace s @ ?new" using n1 t1 t2 by simp
        have b: "n_fetch self ?new \<le> 30 - k" using n2 Suc.prems by simp
        have sp: "spaced self (Some (Cmd ps_count_cmd ret' o')) new"
          using n3 by (cases new) auto
        have c: "spaced self None ?new" using sp by simp
        have d: "\<forall>out. r = Inr out \<longrightarrow> poll_exit self out (n_fetch self ?new = 30 - k) (rev ?new)"
        proof (intro allI impI)
          fix out' assume "r = Inr out'"
          with n4 have "poll_exit self out' (n_fetch self new = 30 - Suc k) (rev new)" by blast
          moreover have "(n_fetch self new = 30 - Suc k) = (n_fetch self ?new = 30 - k)"
            using Suc.prems by auto
          ultimately show "poll_exit self out' (n_fetch self ?new = 30 - k) (rev ?new)"
            using poll_exit_append [of self out' _ "rev new"] by simp
        qed
        from a b c d show ?thesis by blast
      qed
    qed
  qed
qed


lemma rhsm_poll_script:
  "n = 30 - k \<Longrightarrow> k < 30 \<Longrightarrow> rhsm_poll R self [k..<30] out0 s = (r, s') \<Longrightarrow>
     \<exists>p. trace s' = trace s @ p \<and> poll_script self k r p"
proof (induction n arbitrary: k out0 s)
  case 0
  then show ?case by simp
next
  case (Suc n)
  have up: "[k..<30] = k # [Suc k..<30]"
    using Suc.prems(2) by (simp add: upt_conv_Cons)
  obtain ret out s1 where f: "runcmd R (fetch_cmd self) (sleep R 15 s) = ((ret, out), s1)"
    by (metis prod.exhaust)
  have t1: "trace s1 = trace s @ [Sleep 15, Cmd (fetch_cmd self) ret out]"
    using trace_runcmd [OF f] by simp
  show ?case
  proof (cases "has_429 out")
    case True
    with Suc.prems f up have "r = Inr out" "s' = logger log_429 s1" by auto
    with t1 True Suc.prems(2) show ?thesis by simp
  next
    case no429: False
    obtain tr s2 where tn: "thread_number R s1 = (tr, s2)" by (metis prod.exhaust)
    from trace_thread_number [OF tn] obtain ret' o' where
      t2: "trace s2 = trace s1 @ [Cmd ps_count_cmd ret' o']" and tr: "tr = threads_of o'" by blast
    show ?thesis
    proof (cases tr)
      case (Inl e)
      have tri: "threads_of o' = Inl e" using tr Inl by simp
      from Inl Suc.prems f up no429 tn have "r = Inl e" "s' = s2" by auto
      with t1 t2 no429 tri Suc.prems(2) show ?thesis by simp
    next
      case (Inr th)
      have tr': "threads_of o' = Inr th" using tr Inr by simp
      consider (stopped) "th = 0"
        | (err) "th \<noteq> 0" "has_error out"
        | (sent) "th \<noteq> 0" "\<not> has_error out" "send_number self out > 0"
        | (tout) "th \<noteq> 0" "\<not> has_error out" "send_number self out = 0" "k = 29"
        | (cont) "th \<noteq> 0" "\<not> has_error out" "send_number self out = 0" "k \<noteq> 29"
        by auto
      then show ?thesis
      proof cases
        case stopped
        with Suc.prems f up no429 tn Inr have "r = Inr out" "s' = logger log_terminated s2" by auto
        with t1 t2 no429 tr' stopped Suc.prems(2) show ?thesis by simp
      next
        case err
        with Suc.prems f up no429 tn Inr have "r = Inr out" "s' = logger log_error s2" by auto
        with t1 t2 no429 tr' err Suc.prems(2) show ?thesis by simp
      next
        case sent
        with Suc.prems f up no429 tn Inr have "r = Inr out" "s' = logger log_sent s2" by auto
        with t1 t2 no429 tr' sent Suc.prems(2) show ?thesis by simp
      next
        case tout
        with Suc.prems f up no429 tn Inr have "r = Inr out" "s' = logger log_timeout s2" by auto
        with t1 t2 no429 tr' tout Suc.prems(2) show ?thesis by simp
      next
        case cont
        with Suc.prems f up no429 tn Inr have rec: "rhsm_poll R self [Suc k..<30] out s2 = (r, s')"
          by auto
        have "n = 30 - Suc k" "Suc k < 30" using Suc.prems cont by auto
        from Suc.IH [OF this rec] obtain p where
          p1: "trace s' = trace s2 @ p" and p2: "poll_script self (Suc k) r p" by blast
        let ?p = "Sleep 15 # Cmd (fetch_cmd self) ret out # Cmd ps_count_cmd ret' o' # p"
        have "trace s' = trace s @ ?p" using p1 t1 t2 by simp
        moreover have "poll_script self k r ?p"
          using p2 no429 tr' cont Suc.prems(2) by simp
        ultimately show ?thesis by blast
      qed
    qed
  qed
qed


text \<open>Facts about a replayed poll.\<close>

lemma poll_script_cases:
  assumes "poll_script self i r p"
  obtains ret out rest where "p = Sleep 15 # Cmd (fetch_cmd self) ret out # rest" "i < 30"
    "has_429 out \<Longrightarrow> rest = [Log log_429] \<and> r = Inr out"
    "\<not> has_429 out \<Longrightarrow> \<exists>ret' oo rest'. rest = Cmd ps_count_cmd ret' oo # rest' \<and>
       (case threads_of oo of
          Inl e \<Rightarrow> rest' = [] \<and> r = Inl e
        | Inr k \<Rightarrow>
            if k = 0 then rest' = [Log log_terminated] \<and> r = Inr out
            else if has_error out then rest' = [Log log_error] \<and> r = Inr out
            else if send_number self out > 0 then rest' = [Log log_sent] \<and> r = Inr out
            else if i = 29 then rest' = [Log log_timeout] \<and> r = Inr out
            else poll_script self (Suc i) r rest')"
proof -
  from assms obtain n c ret out rest where p: "p = Sleep n # Cmd c ret out # rest"
    by (cases "(self, i, r, p)" rule: poll_script.cases) auto
  with assms have a: "n = 15" "c = fetch_cmd self" "i < 30" by auto
  show ?thesis
  proof (rule that [of ret out rest])
    show "p = Sleep 15 # Cmd (fetch_cmd self) ret out # rest" using p a by simp
    show "i < 30" by fact
    show "has_429 out \<Longrightarrow> rest = [Log log_429] \<and> r = Inr out"
      using assms p by simp
    show "\<not> has_429 out \<Longrightarrow> \<exists>ret' oo rest'. rest = Cmd ps_count_cmd ret' oo # rest' \<and>
       (case threads_of oo of
          Inl e \<Rightarrow> rest' = [] \<and> r = Inl e
        | Inr k \<Rightarrow>
            if k = 0 then rest' = [Log log_terminated] \<and> r = Inr out
            else if has_error out then rest' = [Log log_error] \<and> r = Inr out
            else if send_number self out > 0 then rest' = [Log log_sent] \<and> r = Inr out
            else if i = 29 then rest' = [Log log_timeout] \<and> r = Inr out
            else poll_script self (Suc i) r rest')"
      using assms p by (auto split: list.splits event.splits split del: if_split)
  qed
qed


lemma poll_script_head:
  assumes "poll_script self i r p"
  shows "\<exists>ret out rest. p = Sleep 15 # Cmd (fetch_cmd self) ret out # rest \<and> i < 30"
  using assms by (rule poll_script_cases) blast

lemma poll_script_fetches:
  "n = 30 - i \<Longrightarrow> poll_script self i r p \<Longrightarrow> 1 \<le> n_fetch self p \<and> n_fetch self p \<le> 30 - i"
proof (induction n arbitrary: i p)
  case 0
  from poll_script_head [OF "0.prems"(2)] "0.prems"(1) show ?case by simp
next
  case (Suc n)
  from Suc.prems(2) show ?case
  proof (cases rule: poll_script_cases)
    case (1 ret out rest)
    have p1: "n_fetch self p = Suc (n_fetch self rest)" using 1(1) by simp
    show ?thesis
    proof (cases "has_429 out")
      case True
      with 1(3) have "n_fetch self rest = 0" by simp
      with p1 1(2) show ?thesis by arith
    next
      case False
      with 1(4) obtain ret' oo rest' where
        r: "rest = Cmd ps_count_cmd ret' oo # rest'"
        and c: "case threads_of oo of
          Inl e \<Rightarrow> rest' = [] \<and> r = Inl e
        | Inr k \<Rightarrow>
            if k = 0 then rest' = [Log log_terminated] \<and> r = Inr out
            else if has_error out then rest' = [Log log_error] \<and> r = Inr out
            else if send_number self out > 0 then rest' = [Log log_sent] \<and> r = Inr out
            else if i = 29 then rest' = [Log log_timeout] \<and> r = Inr out
            else poll_script self (Suc i) r rest'"
        by blast
      have p2: "n_fetch self rest = n_fetch self rest'" using r by simp
      have "n_fetch self rest' \<le> 30 - Suc i"
      proof (cases "poll_script self (Suc i) r rest'")
        case True
        have "n = 30 - Suc i" using Suc.prems(1) by arith
        from Suc.IH [OF this True] show ?thesis by blast
      next
        case np: False
        have "rest' = [] \<or> (\<exists>m. rest' = [Log m])"
        proof (cases "threads_of oo")
          case (Inl e)
          with c show ?thesis by simp
        next
          case (Inr k)
          with c np show ?thesis by (simp split: if_splits)
        qed
        then have "n_fetch self rest' = 0" by auto
        then show ?thesis by simp
      qed
      with p1 p2 1(2) show ?thesis by arith
    qed
  qed
qed

lemma poll_script_calm:
  "n = 30 - i \<Longrightarrow> poll_script self i r p \<Longrightarrow> list_all (calm_event self) p \<Longrightarrow>
     n_fetch self p = 30 - i \<and> (\<exists>out. r = Inr out) \<and> last p = Log log_timeout"
proof (induction n arbitrary: i p)
  case 0
  from poll_script_head [OF "0.prems"(2)] "0.prems"(1) show ?case by simp
next
  case (Suc n)
  from Suc.prems(2) show ?case
  proof (cases rule: poll_script_cases)
    case (1 ret out rest)
    have calm: "\<not> has_429 out" "\<not> has_error out" "send_number self out = 0"
      using Suc.prems(3) 1(1) by simp_all
    with 1(4) obtain ret' oo rest' where
      r: "rest = Cmd ps_count_cmd ret' oo # rest'"
      and c: "case threads_of oo of
          Inl e \<Rightarrow> rest' = [] \<and> r = Inl e
        | Inr k \<Rightarrow>
            if k = 0 then rest' = [Log log_terminated] \<and> r = Inr out
            else if has_error out then rest' = [Log log_error] \<and> r = Inr out
            else if send_number self out > 0 then rest' = [Log log_sent] \<and> r = Inr out
            else if i = 29 then rest' = [Log log_timeout] \<and> r = Inr out
            else poll_script self (Suc i) r rest'"
      by blast
    have "case threads_of oo of Inl e \<Rightarrow> False | Inr k \<Rightarrow> k \<noteq> 0"
      using Suc.prems(3) 1(1) r by simp
    then obtain k where k: "threads_of oo = Inr k" "k \<noteq> 0" by (auto split: sum.splits)
    have ca: "list_all (calm_event self) rest'" using Suc.prems(3) 1(1) r by simp
    show ?thesis
    proof (cases "i = 29")
      case True
      with c k calm have "rest' = [Log log_timeout]" "r = Inr out" by simp_all
      with 1 r True show ?thesis by simp
    next
      case False
      with c k calm have ps: "poll_script self (Suc i) r rest'" by simp
      from Suc.IH [OF _ ps ca] Suc.prems(1)
      have ih: "n_fetch self rest' = 30 - Suc i" "\<exists>out. r = Inr out" "last rest' = Log log_timeout"
        by simp_all
      have "rest' \<noteq> []" using poll_script_head [OF ps] by auto
      with ih 1 r show ?thesis by simp
    qed
  qed
qed

lemma poll_script_iteration:
  "n = 30 - i \<Longrightarrow> poll_script self i r p \<Longrightarrow> p = pre @ Cmd (fetch_cmd self) ret out # post \<Longrightarrow>
     (has_429 out \<longrightarrow> post = [Log log_429] \<and> r = Inr out)
   \<and> (\<not> has_429 out \<longrightarrow>
        (\<exists>ret' oo rest'. post = Cmd ps_count_cmd ret' oo # rest'
          \<and> (\<forall>e. threads_of oo = Inl e \<longrightarrow> rest' = [] \<and> r = Inl e)
          \<and> (threads_of oo = Inr 0 \<longrightarrow> rest' = [Log log_terminated] \<and> r = Inr out)
          \<and> (\<forall>k. threads_of oo = Inr k \<and> k \<noteq> 0 \<longrightarrow>
                (has_error out \<longrightarrow> rest' = [Log log_error] \<and> r = Inr out)
              \<and> (\<not> has_error out \<and> send_number self out > 0 \<longrightarrow>
                    rest' = [Log log_sent] \<and> r = Inr out)
              \<and> (\<not> has_error out \<and> send_number self out = 0 \<longrightarrow>
                    (i + n_fetch self pre = 29 \<longrightarrow> rest' = [Log log_timeout] \<and> r = Inr out)
                  \<and> (i + n_fetch self pre \<noteq> 29 \<longrightarrow>
                        (\<exists>ret2 out2 rest2.
                           rest' = Sleep 15 # Cmd (fetch_cmd self) ret2 out2 # rest2))))))"
proof (induction n arbitrary: i p pre)
  case 0
  from poll_script_head [OF "0.prems"(2)] "0.prems"(1) show ?case by simp
next
  case (Suc n)
  from Suc.prems(2) show ?case
  proof (cases rule: poll_script_cases)
    case (1 ret0 out0 rest)
    show ?thesis
    proof (cases "pre = [Sleep 15]")
      case True
      with 1(1) Suc.prems(3) have eq: "ret0 = ret" "out0 = out" "rest = post" by simp_all
      show ?thesis
      proof (cases "has_429 out")
        case True
        with 1(3) eq show ?thesis by simp
      next
        case False
        with 1(4) eq obtain ret' oo rest' where
          r: "post = Cmd ps_count_cmd ret' oo # rest'"
          and c: "case threads_of oo of
              Inl e \<Rightarrow> rest' = [] \<and> r = Inl e
            | Inr k \<Rightarrow>
                if k = 0 then rest' = [Log log_terminated] \<and> r = Inr out
                else if has_error out then rest' = [Log log_error] \<and> r = Inr out
                else if send_number self out > 0 then rest' = [Log log_sent] \<and> r = Inr out
                else if i = 29 then rest' = [Log log_timeout] \<and> r = Inr out
                else poll_script self (Suc i) r rest'"
          by blast
        have nx: "poll_script self (Suc i) r rest' \<Longrightarrow>
                    \<exists>ret2 out2 rest2. rest' = Sleep 15 # Cmd (fetch_cmd self) ret2 out2 # rest2"
          using poll_script_head [of self "Suc i" r rest'] by blast
        have np: "n_fetch self pre = 0" using True by simp
        show ?thesis
          using False r c nx np by (cases "threads_of oo") (auto split: if_splits)
      qed
    next
      case False
      with 1(1) Suc.prems(3) obtain pre' where
        pre: "pre = Sleep 15 # Cmd (fetch_cmd self) ret0 out0 # pre'"
        and rest: "rest = pre' @ Cmd (fetch_cmd self) ret out # post"
        by (cases pre; cases "tl pre") auto
      have n429: "\<not> has_429 out0"
      proof
        assume "has_429 out0"
        with 1(3) rest show False by (cases pre') auto
      qed
      with 1(4) obtain ret' oo rest' where
        r: "rest = Cmd ps_count_cmd ret' oo # rest'"
        and c: "case threads_of oo of
            Inl e \<Rightarrow> rest' = [] \<and> r = Inl e
          | Inr k \<Rightarrow>
              if k = 0 then rest' = [Log log_terminated] \<and> r = Inr out0
              else if has_error out0 then rest' = [Log log_error] \<and> r = Inr out0
              else if send_number self out0 > 0 then rest' = [Log log_sent] \<and> r = Inr out0
              else if i = 29 then rest' = [Log log_timeout] \<and> r = Inr out0
              else poll_script self (Suc i) r rest'"
        by blast
      from r rest obtain pre'' where
        pre': "pre' = Cmd ps_count_cmd ret' oo # pre''"
        and rest': "rest' = pre'' @ Cmd (fetch_cmd self) ret out # post"
        by (cases pre') auto
      have ps: "poll_script self (Suc i) r rest'"
        using c rest' by (cases "threads_of oo") (auto split: if_splits simp: Cons_eq_append_conv)
      have nf: "Suc i + n_fetch self pre'' = i + n_fetch self pre"
        using pre pre' by simp
      from Suc.IH [OF _ ps rest'] Suc.prems(1) show ?thesis
        unfolding nf by simp
    qed
  qed
qed

lemma wait_events_cases: "wait_events wait = [] \<or> (\<exists>w. wait_events wait = [Sleep w])"
  by (simp add: wait_events_def split: option.splits)

lemma rhsm_log_get_script:
  assumes "rhsm_log_get R self wait s = (r, s')"
  shows "\<exists>p. new_events s s' = wait_events wait @ p \<and> poll_script self 0 r p"
proof -
  define s0 where "s0 = (case wait of None \<Rightarrow> s | Some w \<Rightarrow> if w \<noteq> 0 then sleep R w s else s)"
  have p: "rhsm_poll R self [0..<30] [] s0 = (r, s')"
    using assms by (simp add: rhsm_log_get_def s0_def)
  have t0: "trace s0 = trace s @ wait_events wait"
    by (simp add: s0_def wait_events_def split: option.splits)
  have "(30::nat) = 30 - 0" "(0::nat) < 30" by simp_all
  from rhsm_poll_script [OF this p] obtain q where
    q: "trace s' = trace s0 @ q" "poll_script self 0 r q" by blast
  have "new_events s s' = wait_events wait @ q"
    using q(1) t0 by (simp add: new_events_def)
  with q(2) show ?thesis by blast
qed

lemma fetch_split:
  assumes "ws @ p = pre @ Cmd c ret out # post" "ws = [] \<or> (\<exists>w. ws = [Sleep w])"
  shows "\<exists>pre'. pre = ws @ pre' \<and> p = pre' @ Cmd c ret out # post"
  using assms by (cases pre) auto

lemma calm_wait: "list_all (calm_event self) (wait_events wait @ p) = list_all (calm_event self) p"
  using wait_events_cases [of wait] by auto

lemma n_fetch_wait: "n_fetch self (wait_events wait @ p) = n_fetch self p"
  using wait_events_cases [of wait] by auto

lemma rhsm_log_get_trace:
  assumes "rhsm_log_get R self wait s = (r, s')"
  shows "trace s' = trace s @ new_events s s'
    \<and> n_fetch self (new_events s s') \<le> 30
    \<and> spaced self None (new_events s s')
    \<and> (\<forall>out. r = Inr out \<longrightarrow>
          poll_exit self out (n_fetch self (new_events s s') = 30) (rev (new_events s s')))"
proof -
  define s0 where "s0 = (case wait of None \<Rightarrow> s | Some w \<Rightarrow> if w \<noteq> 0 then sleep R w s else s)"
  have p: "rhsm_poll R self [0..<30] [] s0 = (r, s')"
    using assms by (simp add: rhsm_log_get_def s0_def)
  from rhsm_poll_trace [OF _ _ p] obtain new where
    n1: "trace s' = trace s0 @ new" and n2: "n_fetch self new \<le> 30"
    and n3: "spaced self None new"
    and n4: "\<forall>out. r = Inr out \<longrightarrow> poll_exit self out (n_fetch self new = 30) (rev new)"
    by auto
  have "\<exists>pre. trace s0 = trace s @ pre \<and> n_fetch self pre = 0 \<and> spaced self None pre
          \<and> (pre = [] \<or> (\<exists>w. pre = [Sleep w]))"
  proof (cases "s0 = s")
    case True
    then show ?thesis by simp
  next
    case False
    then obtain w where "s0 = sleep R w s"
      by (auto simp: s0_def split: option.splits if_splits)
    then have "trace s0 = trace s @ [Sleep w]" by simp
    then show ?thesis by simp
  qed
  then obtain pre where pre: "trace s0 = trace s @ pre" "n_fetch self pre = 0"
    "spaced self None pre" "pre = [] \<or> (\<exists>w. pre = [Sleep w])"
    by blast
  have sp: "spaced self (if pre = [] then None else Some (last pre)) new"
    using n3 pre(4) by (cases new) auto
  have ne: "new_events s s' = pre @ new"
    using n1 pre(1) by (simp add: new_events_def)
  have e: "\<forall>out. r = Inr out \<longrightarrow> poll_exit self out (n_fetch self (pre @ new) = 30) (rev (pre @ new))"
    using n4 pre(2) poll_exit_append by auto
  show ?thesis
    unfolding ne using n1 n2 pre sp e by (simp add: spaced_append)
qed

lemma rhsm_log_get_replay:
  assumes "rhsm_log_get R self wait s = (r, s')"
  shows "(\<exists>p. new_events s s' = wait_events wait @ p \<and> poll_script self 0 r p)
    \<and> 1 \<le> n_fetch self (new_events s s')
    \<and> (\<forall>pre ret out post. new_events s s' = pre @ Cmd (fetch_cmd self) ret out # post \<longrightarrow>
          (has_429 out \<longrightarrow> post = [Log log_429] \<and> r = Inr out)
        \<and> (\<not> has_429 out \<longrightarrow>
             (\<exists>ret' oo rest'. post = Cmd ps_count_cmd ret' oo # rest'
               \<and> (\<forall>e. threads_of oo = Inl e \<longrightarrow> rest' = [] \<and> r = Inl e)
               \<and> (threads_of oo = Inr 0 \<longrightarrow> rest' = [Log log_terminated] \<and> r = Inr out)
               \<and> (\<forall>k. threads_of oo = Inr k \<and> k \<noteq> 0 \<longrightarrow>
                     (has_error out \<longrightarrow> rest' = [Log log_error] \<and> r = Inr out)
                   \<and> (\<not> has_error out \<and> send_number self out > 0 \<longrightarrow>
                         rest' = [Log log_sent] \<and> r = Inr out)
                   \<and> (\<not> has_error out \<and> send_number self out = 0 \<longrightarrow>
                         (n_fetch self pre = 29 \<longrightarrow> rest' = [Log log_timeout] \<and> r = Inr out)
                       \<and> (n_fetch self pre \<noteq> 29 \<longrightarrow>
                             (\<exists>ret2 out2 rest2.
                                rest' = Sleep 15 # Cmd (fetch_cmd self) ret2 out2 # rest2)))))))
    \<and> (list_all (calm_event self) (new_events s s') \<longrightarrow>
          n_fetch self (new_events s s') = 30 \<and> (\<exists>out. r = Inr out)
          \<and> last (new_events s s') = Log log_timeout)"
proof -
  from rhsm_log_get_script [OF assms] obtain p where
    ne: "new_events s s' = wait_events wait @ p" and ps: "poll_script self 0 r p" by blast
  have z: "(30::nat) = 30 - 0" by simp
  have a: "\<exists>p. new_events s s' = wait_events wait @ p \<and> poll_script self 0 r p"
    using ne ps by blast
  have b: "1 \<le> n_fetch self (new_events s s')"
    unfolding ne n_fetch_wait using poll_script_fetches [OF z ps] by simp
  have pne: "p \<noteq> []" using poll_script_head [OF ps] by auto
  have d: "list_all (calm_event self) (new_events s s') \<longrightarrow>
          n_fetch self (new_events s s') = 30 \<and> (\<exists>out. r = Inr out)
          \<and> last (new_events s s') = Log log_timeout"
    unfolding ne calm_wait n_fetch_wait using poll_script_calm [OF z ps] pne by simp
  have c: "\<forall>pre ret out post. new_events s s' = pre @ Cmd (fetch_cmd self) ret out # post \<longrightarrow>
          (has_429 out \<longrightarrow> post = [Log log_429] \<and> r = Inr out)
        \<and> (\<not> has_429 out \<longrightarrow>
             (\<exists>ret' oo rest'. post = Cmd ps_count_cmd ret' oo # rest'
               \<and> (\<forall>e. threads_of oo = Inl e \<longrightarrow> rest' = [] \<and> r = Inl e)
               \<and> (threads_of oo = Inr 0 \<longrightarrow> rest' = [Log log_terminated] \<and> r = Inr out)
               \<and> (\<forall>k. threads_of oo = Inr k \<and> k \<noteq> 0 \<longrightarrow>
                     (has_error out \<longrightarrow> rest' = [Log log_error] \<and> r = Inr out)
                   \<and> (\<not> has_error out \<and> send_number self out > 0 \<longrightarrow>
                         rest' = [Log log_sent] \<and> r = Inr out)
                   \<and> (\<not> has_error out \<and> send_number self out = 0 \<longrightarrow>
                         (n_fetch self pre = 29 \<longrightarrow> rest' = [Log log_timeout] \<and> r = Inr out)
                       \<and> (n_fetch self pre \<noteq> 29 \<longrightarrow>
                             (\<exists>ret2 out2 rest2.
                                rest' = Sleep 15 # Cmd (fetch_cmd self) ret2 out2 # rest2))))))"
  proof (intro allI impI)
    fix pre ret out post
    assume "new_events s s' = pre @ Cmd (fetch_cmd self) ret out # post"
    with ne have "wait_events wait @ p = pre @ Cmd (fetch_cmd self) ret out # post" by simp
    from fetch_split [OF this wait_events_cases] obtain pre' where
      pre: "pre = wait_events wait @ pre'" and p: "p = pre' @ Cmd (fetch_cmd self) ret out # post"
      by blast
    have nf: "0 + n_fetch self pre' = n_fetch self pre" unfolding pre n_fetch_wait by simp
    from poll_script_iteration [OF z ps p]
    show "(has_429 out \<longrightarrow> post = [Log log_429] \<and> r = Inr out)
        \<and> (\<not> has_429 out \<longrightarrow>
             (\<exists>ret' oo rest'. post = Cmd ps_count_cmd ret' oo # rest'
               \<and> (\<forall>e. threads_of oo = Inl e \<longrightarrow> rest' = [] \<and> r = Inl e)
               \<and> (threads_of oo = Inr 0 \<longrightarrow> rest' = [Log log_terminated] \<and> r = Inr out)
               \<and> (\<forall>k. threads_of oo = Inr k \<and> k \<noteq> 0 \<longrightarrow>
                     (has_error out \<longrightarrow> rest' = [Log log_error] \<and> r = Inr out)
                   \<and> (\<not> has_error out \<and> send_number self out > 0 \<longrightarrow>
                         rest' = [Log log_sent] \<and> r = Inr out)
                   \<and> (\<not> has_error out \<and> send_number self out = 0 \<longrightarrow>
                         (n_fetch self pre = 29 \<longrightarrow> rest' = [Log log_timeout] \<and> r = Inr out)
                       \<and> (n_fetch self pre \<noteq> 29 \<longrightarrow>
                             (\<exists>ret2 out2 rest2.
                                rest' = Sleep 15 # Cmd (fetch_cmd self) ret2 out2 # rest2))))))"
      unfolding nf .
  qed
  from a b c d show ?thesis by (intro conjI)
qed

text \<open>
  C2: whatever the host answers, one call of \<^verbatim>\<open>rhsm_log_get\<close> returns, after at least one
  and at most 30 fetches of the log, each directly after a sleep of 15 seconds. Its events
  are the sleep asked for and then the iterations of the poll, one after the other. In the
  iteration of every fetch the tests are made in this order on the fetched text \<open>out\<close>, and
  the first that holds ends the poll in that iteration with \<open>out\<close> returned: the 429 marker
  (the count of threads is then not asked); else the count of threads is zero; else an
  ERROR line; else a send count above zero. A count of threads that is no number ends the
  poll with the exception. With none of them holding the poll goes on with the next sleep
  and fetch, except at the 30th fetch, where it ends with the timeout. So a poll in which
  no test ever fires makes all 30 fetches, returns a text and ends with the timeout.
\<close>

theorem rhsm_log_get_bounded:
  assumes "rhsm_log_get R self wait s = (r, s')"
  shows "trace s' = trace s @ new_events s s'
    \<and> n_fetch self (new_events s s') \<le> 30
    \<and> spaced self None (new_events s s')
    \<and> (\<forall>out. r = Inr out \<longrightarrow>
          poll_exit self out (n_fetch self (new_events s s') = 30) (rev (new_events s s')))
    \<and> (\<exists>p. new_events s s' = wait_events wait @ p \<and> poll_script self 0 r p)
    \<and> 1 \<le> n_fetch self (new_events s s')
    \<and> (\<forall>pre ret out post. new_events s s' = pre @ Cmd (fetch_cmd self) ret out # post \<longrightarrow>
          (has_429 out \<longrightarrow> post = [Log log_429] \<and> r = Inr out)
        \<and> (\<not> has_429 out \<longrightarrow>
             (\<exists>ret' oo rest'. post = Cmd ps_count_cmd ret' oo # rest'
               \<and> (\<forall>e. threads_of oo = Inl e \<longrightarrow> rest' = [] \<and> r = Inl e)
               \<and> (threads_of oo = Inr 0 \<longrightarrow> rest' = [Log log_terminated] \<and> r = Inr out)
               \<and> (\<forall>k. threads_of oo = Inr k \<and> k \<noteq> 0 \<longrightarrow>
                     (has_error out \<longrightarrow> rest' = [Log log_error] \<and> r = Inr out)
                   \<and> (\<not> has_error out \<and> send_number self out > 0 \<longrightarrow>
                         rest' = [Log log_sent] \<and> r = Inr out)
                   \<and> (\<not> has_error out \<and> send_number self out = 0 \<longrightarrow>
                         (n_fetch self pre = 29 \<longrightarrow> rest' = [Log log_timeout] \<and> r = Inr out)
                       \<and> (n_fetch self pre \<noteq> 29 \<longrightarrow>
                             (\<exists>ret2 out2 rest2.
                                rest' = Sleep 15 # Cmd (fetch_cmd self) ret2 out2 # rest2)))))))
    \<and> (list_all (calm_event self) (new_events s s') \<longrightarrow>
          n_fetch self (new_events s s') = 30 \<and> (\<exists>out. r = Inr out)
          \<and> last (new_events s s') = Log log_timeout)"
  using rhsm_log_get_trace [OF assms] rhsm_log_get_replay [OF assms]
  by (elim conjE) (intro conjI, assumption+)

theorem rhsm_log_get_bounded_witness:
  "rhsm_log_get (table_host [(''cat /var/log/rhsm/rhsm.log'', (0, ''status=429''))])
        (init_runner ''esx'' ''rhsm'') None start_state
     = (Inr ''status=429'',
        \<lparr>world = (), trace = [Sleep 15, Cmd ''cat /var/log/rhsm/rhsm.log'' 0 ''status=429'',
                                Log log_429]\<rparr>)
   \<and> n_fetch (init_runner ''esx'' ''rhsm'')
         [Sleep 15, Cmd ''cat /var/log/rhsm/rhsm.log'' 0 ''status=429'', Log log_429] \<le> 30
   \<and> poll_exit (init_runner ''esx'' ''rhsm'') ''status=429'' False
         [Log log_429, Cmd ''cat /var/log/rhsm/rhsm.log'' 0 ''status=429'', Sleep 15]
   \<and> rhsm_log_get (late_error_host (init_runner ''esx'' ''rhsm'')) (init_runner ''esx'' ''rhsm'')
        None \<lparr>world = 0, trace = []\<rparr>
     = (Inr ''[ERROR]'',
        \<lparr>world = 3, trace =
          [Sleep 15, Cmd ''cat /var/log/rhsm/rhsm.log'' 0 [], Cmd ps_count_cmd 0 ''1'',
           Sleep 15, Cmd ''cat /var/log/rhsm/rhsm.log'' 0 [], Cmd ps_count_cmd 0 ''1'',
           Sleep 15, Cmd ''cat /var/log/rhsm/rhsm.log'' 0 ''[ERROR]'', Cmd ps_count_cmd 0 ''1'',
           Log log_error]\<rparr>)
   \<and> \<not> has_429 ''[ERROR]'' \<and> threads_of ''1'' = Inr 1 \<and> has_error ''[ERROR]''
   \<and> \<not> has_429 [] \<and> \<not> has_error [] \<and> send_number (init_runner ''esx'' ''rhsm'') [] = 0
   \<and> rhsm_log_get (table_host [(ps_count_cmd, (0, ''1''))]) (init_runner ''esx'' ''rhsm'')
        (Some 60) start_state
     = (Inr [],
        \<lparr>world = (), trace =
          Sleep 60 # concat (replicate 30
            [Sleep 15, Cmd ''cat /var/log/rhsm/rhsm.log'' 0 [], Cmd ps_count_cmd 0 ''1''])
          @ [Log log_timeout]\<rparr>)
   \<and> list_all (calm_event (init_runner ''esx'' ''rhsm''))
        (Sleep 60 # concat (replicate 30
            [Sleep 15, Cmd ''cat /var/log/rhsm/rhsm.log'' 0 [], Cmd ps_count_cmd 0 ''1''])
          @ [Log log_timeout])
   \<and> n_fetch (init_runner ''esx'' ''rhsm'')
        (Sleep 60 # concat (replicate 30
            [Sleep 15, Cmd ''cat /var/log/rhsm/rhsm.log'' 0 [], Cmd ps_count_cmd 0 ''1''])
          @ [Log log_timeout]) = 30
   \<and> last (Sleep 60 # concat (replicate 30
            [Sleep 15, Cmd ''cat /var/log/rhsm/rhsm.log'' 0 [], Cmd ps_count_cmd 0 ''1''])
          @ [Log log_timeout]) = Log log_timeout"
proof -
  let ?self = "init_runner ''esx'' ''rhsm''"
  let ?R1 = "table_host [(''cat /var/log/rhsm/rhsm.log'', (0, ''status=429''))]"
  let ?t1 = "[Sleep 15, Cmd ''cat /var/log/rhsm/rhsm.log'' 0 ''status=429'', Log log_429]"
  let ?s1 = "\<lparr>world = (), trace = ?t1\<rparr>"
  let ?pre2 = "[Sleep 15, Cmd ''cat /var/log/rhsm/rhsm.log'' 0 [], Cmd ps_count_cmd 0 ''1'',
           Sleep 15, Cmd ''cat /var/log/rhsm/rhsm.log'' 0 [], Cmd ps_count_cmd 0 ''1'',
           Sleep 15]"
  let ?post2 = "[Cmd ps_count_cmd 0 ''1'', Log log_error]"
  let ?t2 = "[Sleep 15, Cmd ''cat /var/log/rhsm/rhsm.log'' 0 [], Cmd ps_count_cmd 0 ''1'',
           Sleep 15, Cmd ''cat /var/log/rhsm/rhsm.log'' 0 [], Cmd ps_count_cmd 0 ''1'',
           Sleep 15, Cmd ''cat /var/log/rhsm/rhsm.log'' 0 ''[ERROR]'', Cmd ps_count_cmd 0 ''1'',
           Log log_error]"
  let ?s2 = "\<lparr>world = 3::nat, trace = ?t2\<rparr>"
  let ?R3 = "table_host [(ps_count_cmd, (0, ''1''))]"
  let ?t3 = "Sleep 60 # concat (replicate 30
            [Sleep 15, Cmd ''cat /var/log/rhsm/rhsm.log'' 0 [], Cmd ps_count_cmd 0 ''1''])
          @ [Log log_timeout]"
  let ?s3 = "\<lparr>world = (), trace = ?t3\<rparr>"
  have e1: "rhsm_log_get ?R1 ?self None start_state = (Inr ''status=429'', ?s1)"
    by code_simp
  have e2: "rhsm_log_get (late_error_host ?self) ?self None \<lparr>world = 0, trace = []\<rparr>
              = (Inr ''[ERROR]'', ?s2)"
    by code_simp
  have e3: "rhsm_log_get ?R3 ?self (Some 60) start_state = (Inr [], ?s3)"
    by code_simp
  have n1: "new_events start_state ?s1 = ?t1"
    by (simp add: new_events_def start_state_def)
  have n2: "new_events \<lparr>world = 0::nat, trace = []\<rparr> ?s2
              = ?pre2 @ Cmd (fetch_cmd ?self) 0 ''[ERROR]'' # ?post2"
    by (simp add: new_events_def fetch_cmd_def init_runner_def)
  have n3: "new_events start_state ?s3 = ?t3"
    by (simp add: new_events_def start_state_def)
  have f: "\<not> (n_fetch ?self ?t1 = 30)"
    by simp
  note T1 = rhsm_log_get_bounded [OF e1, unfolded n1]
  have a1: "n_fetch ?self ?t1 \<le> 30"
    by (rule T1 [THEN conjunct2, THEN conjunct1])
  have a2: "poll_exit ?self ''status=429'' False (rev ?t1)"
    using T1 [THEN conjunct2, THEN conjunct2, THEN conjunct2, THEN conjunct1, rule_format, OF refl]
      f by simp
  have g: "\<not> has_429 ''[ERROR]''" "threads_of ''1'' = Inr 1" "has_error ''[ERROR]''"
    "\<not> has_429 []" "\<not> has_error []" "send_number ?self [] = 0"
    by code_simp+
  note T2 = rhsm_log_get_bounded [OF e2, THEN conjunct2, THEN conjunct2, THEN conjunct2,
      THEN conjunct2, THEN conjunct2, THEN conjunct2, THEN conjunct1, rule_format, OF n2,
      THEN conjunct2, rule_format, OF g(1)]
  have c3: "list_all (calm_event ?self) ?t3"
    by code_simp
  note T3 = rhsm_log_get_bounded [OF e3, unfolded n3, THEN conjunct2, THEN conjunct2,
      THEN conjunct2, THEN conjunct2, THEN conjunct2, THEN conjunct2, THEN conjunct2,
      rule_format, OF c3]
  have a3: "n_fetch ?self ?t3 = 30" "last ?t3 = Log log_timeout"
    using T3 by blast+
  from e1 a1 a2 e2 T2 g e3 c3 a3 show ?thesis
    by simp
qed

section \<open>The run loop is bounded\<close>

lemma n_spawn_simps [simp]:
  "n_spawn [] = 0"
  "n_spawn (a @ b) = n_spawn a + n_spawn b"
  "n_spawn (Cmd c ret output # es) = n_spawn es"
  "n_spawn (Sleep n # es) = n_spawn es"
  "n_spawn (Log m # es) = n_spawn es"
  "n_spawn (Spawn c # es) = Suc (n_spawn es)"
  by (simp_all add: n_spawn_def)

lemma extends_refl [simp]: "extends s s 0"
  by (simp add: extends_def)

lemma extends_trans: "extends s s1 a \<Longrightarrow> extends s1 s2 b \<Longrightarrow> extends s s2 (a + b)"
  by (auto simp: extends_def)

lemma extends_trans0: "extends s s1 0 \<Longrightarrow> extends s1 s2 b \<Longrightarrow> extends s s2 b"
  using extends_trans [of s s1 0 s2 b] by simp

lemma extends_runcmd: "runcmd R c s = (r, s') \<Longrightarrow> extends s s' 0"
  by (cases r) (auto simp: extends_def dest: trace_runcmd)

lemma extends_sleep [simp]: "extends s (sleep R n s) 0"
  by (simp add: extends_def)

lemma extends_logger [simp]: "extends s (logger m s) 0"
  by (simp add: extends_def)

lemma extends_spawn [simp]: "extends s (spawn R c s) 1"
  by (simp add: extends_def)

lemma quiet_runcmd: "quiet (runcmd R c)"
  by (auto simp: quiet_def dest: extends_runcmd)

lemma quietD: "quiet m \<Longrightarrow> m s = (r, s') \<Longrightarrow> extends s s' 0"
  by (auto simp: quiet_def)

lemma quiet_thread_number: "quiet (thread_number R)"
  by (auto simp: quiet_def thread_number_def dest: extends_runcmd split: prod.splits)

lemma quiet_operate_service: "quiet (operate_service R name action)"
  by (auto simp: quiet_def operate_service_def split: prod.splits
      intro: extends_trans0 [OF extends_runcmd])

lemma quiet_kill_pid: "quiet (kill_pid R name)"
  unfolding quiet_def
proof (intro allI impI)
  fix s r s'
  assume a: "kill_pid R name s = (r, s')"
  obtain r1 s1 where c1: "runcmd R (kill_cmd name) s = (r1, s1)" by (metis prod.exhaust)
  obtain r2 s2 where c2: "runcmd R (''rm -f /var/run/'' @ name @ ''.pid'') s1 = (r2, s2)"
    by (metis prod.exhaust)
  obtain r3 s3 where
    c3: "runcmd R (''ps -ef | grep '' @ name @ '' -i | grep -v grep |sort'') s2 = (r3, s3)"
    by (metis prod.exhaust)
  have "s' = s3" using a c1 c2 c3 by (auto simp: kill_pid_def split: prod.splits)
  then show "extends s s' 0"
    using extends_trans0 [OF extends_runcmd [OF c1]
            extends_trans0 [OF extends_runcmd [OF c2] extends_runcmd [OF c3]]]
    by simp
qed

lemma quiet_stop: "quiet (stop R)"
  unfolding quiet_def stop_def
  by (auto split: prod.splits if_splits
      intro: extends_trans0 [OF quietD [OF quiet_operate_service] quietD [OF quiet_kill_pid]])

lemma extends_log_clean: "extends s (log_clean R self s) 0"
  unfolding log_clean_def
  by (auto split: prod.splits intro: extends_trans0 [OF extends_runcmd extends_runcmd])

lemma quiet_rhsm_poll: "quiet (rhsm_poll R self is out0)"
  unfolding quiet_def
proof (induction "is" arbitrary: out0)
  case Nil
  then show ?case by simp
next
  case (Cons i "is")
  show ?case
  proof (intro allI impI)
    fix s r s'
    assume a: "rhsm_poll R self (i # is) out0 s = (r, s')"
    obtain ret out s1 where f: "runcmd R (fetch_cmd self) (sleep R 15 s) = ((ret, out), s1)"
      by (metis prod.exhaust)
    have e1: "extends s s1 0"
      by (rule extends_trans0 [OF extends_sleep extends_runcmd [OF f]])
    obtain tr s2 where tn: "thread_number R s1 = (tr, s2)" by (metis prod.exhaust)
    have e2: "extends s s2 0"
      by (rule extends_trans0 [OF e1 quietD [OF quiet_thread_number tn]])
    have l1: "\<And>m. extends s (logger m s1) 0" by (rule extends_trans0 [OF e1 extends_logger])
    have l2: "\<And>m. extends s (logger m s2) 0" by (rule extends_trans0 [OF e2 extends_logger])
    have rec: "rhsm_poll R self is out s2 = (r, s') \<Longrightarrow> extends s s' 0"
      using Cons.IH [of out] e2 by (auto intro: extends_trans0)
    from a f tn l1 l2 e2 rec show "extends s s' 0"
      by (auto split: sum.splits if_splits)
  qed
qed

lemma quiet_rhsm_log_get: "quiet (rhsm_log_get R self wait)"
  unfolding quiet_def rhsm_log_get_def Let_def
  by (auto split: option.splits if_splits dest: quietD [OF quiet_rhsm_poll]
      intro: extends_trans0 [OF extends_sleep])

lemma thread_start_spawn:
  assumes "thread_start R self cli wait s = (r, s')"
  shows "(\<exists>e. r = Inl e) \<and> extends s s' 0 \<or> extends s s' 1"
proof -
  obtain sr s1 where st: "stop R s = (sr, s1)" by (metis prod.exhaust)
  have e1: "extends s s1 0" by (rule quietD [OF quiet_stop st])
  show ?thesis
  proof (cases sr)
    case (Inl e)
    with assms st e1 show ?thesis by (auto simp: thread_start_def)
  next
    case (Inr u)
    let ?s2 = "spawn R (start_cmd cli) (log_clean R self s1)"
    have "extends s ?s2 1"
      using extends_trans [OF extends_trans0 [OF e1 extends_log_clean] extends_spawn] by simp
    moreover have "rhsm_log_get R self wait ?s2 = (r, s')"
      using assms st Inr by (simp add: thread_start_def)
    ultimately have "extends s s' 1"
      using extends_trans [OF _ quietD [OF quiet_rhsm_log_get]] by fastforce
    then show ?thesis by simp
  qed
qed


lemma quiet_pure_step: "quiet (pure_step r)"
  by (simp add: quiet_def pure_step_def)

lemma quiet_total_step: "quiet m \<Longrightarrow> quiet (total_step m)"
  by (auto simp: quiet_def total_step_def split: prod.splits)

lemma quiet_sbind: "quiet m \<Longrightarrow> (\<And>x. quiet (f x)) \<Longrightarrow> quiet (sbind m f)"
  unfolding quiet_def sbind_def
  by (auto split: prod.splits sum.splits) (blast intro: extends_trans0)

lemma quiet_case_prod: "(\<And>a b. quiet (f a b)) \<Longrightarrow> quiet (case p of (a, b) \<Rightarrow> f a b)"
  by (cases p) simp

lemma quiet_loop_number: "quiet (loop_number R self)"
  unfolding quiet_def
proof (intro allI impI)
  fix s r s'
  assume a: "loop_number R self s = (r, s')"
  obtain r1 s1 where c1: "runcmd R (loop_first_cmd self) s = (r1, s1)" by (metis prod.exhaust)
  have e1: "extends s s1 0" by (rule extends_runcmd [OF c1])
  have e2: "\<And>c r2 s2. runcmd R c s1 = (r2, s2) \<Longrightarrow> extends s s2 0"
    by (rule extends_trans0 [OF e1 extends_runcmd])
  from a c1 e1 e2 show "extends s s' 0"
    by (cases r1) (auto simp: loop_number_def split: list.splits if_splits prod.splits sum.splits)
qed

lemma quiet_loop_info: "quiet (loop_info R self)"
  unfolding quiet_def
proof (intro allI impI)
  fix s r s'
  assume a: "loop_info R self s = (r, s')"
  obtain r1 s1 where c1: "loop_number R self s = (r1, s1)" by (metis prod.exhaust)
  have e1: "extends s s1 0" by (rule quietD [OF quiet_loop_number c1])
  have e2: "\<And>c r2 s2. runcmd R c s1 = (r2, s2) \<Longrightarrow> extends s s2 0"
    by (rule extends_trans0 [OF e1 extends_runcmd])
  from a c1 e1 e2 show "extends s s' 0"
    by (auto simp: loop_info_def split: list.splits if_splits prod.splits sum.splits)
qed

lemma quiet_print_json: "quiet (print_json R self)"
  by (auto simp: quiet_def print_json_def dest: extends_runcmd split: prod.splits)

lemma quiet_error_warning: "quiet (error_warning R self msg)"
  by (auto simp: quiet_def error_warning_def dest: extends_runcmd split: prod.splits)

lemma quiet_analyzer: "quiet (analyzer R self E rhsm_log)"
  unfolding analyzer_def
  by (intro quiet_sbind quiet_pure_step quiet_total_step quiet_case_prod quiet_thread_number
      quiet_loop_info quiet_print_json quiet_error_warning)

lemma run_loop_spawn:
  "run_loop R self E cli wait is s = (r, s') \<Longrightarrow> \<exists>k\<le>length is. extends s s' k"
proof (induction "is" arbitrary: s)
  case Nil
  then show ?case by auto
next
  case (Cons i "is")
  obtain tr s1 where ts: "thread_start R self cli wait s = (tr, s1)" by (metis prod.exhaust)
  from thread_start_spawn [OF ts] obtain k1 where k1: "k1 \<le> 1" "extends s s1 k1" by auto
  show ?case
  proof (cases tr)
    case (Inl e)
    with Cons.prems ts have "s' = s1" by simp
    with k1 show ?thesis by (intro exI [of _ k1]) simp
  next
    case (Inr out)
    consider (a) "has_429 out" | (b) "\<not> has_429 out" "has_500 out"
      | (c) "\<not> has_429 out" "\<not> has_500 out" by auto
    then show ?thesis
    proof cases
      case a
      let ?s2 = "sleep R (60 * (i + 3)) (logger (log_retry_429 (60 * (i + 3))) s1)"
      have "run_loop R self E cli wait is ?s2 = (r, s')"
        using Cons.prems ts Inr a by (simp add: Let_def)
      from Cons.IH [OF this] obtain k where k: "k \<le> length is" "extends ?s2 s' k" by auto
      have "extends s1 ?s2 0" by (rule extends_trans0 [OF extends_logger extends_sleep])
      from extends_trans [OF k1(2) extends_trans0 [OF this k(2)]] k(1) k1(1)
      show ?thesis by (intro exI [of _ "k1 + k"]) simp
    next
      case b
      let ?s2 = "sleep R 60 (logger log_retry_500 s1)"
      have "run_loop R self E cli wait is ?s2 = (r, s')"
        using Cons.prems ts Inr b by simp
      from Cons.IH [OF this] obtain k where k: "k \<le> length is" "extends ?s2 s' k" by auto
      have "extends s1 ?s2 0" by (rule extends_trans0 [OF extends_logger extends_sleep])
      from extends_trans [OF k1(2) extends_trans0 [OF this k(2)]] k(1) k1(1)
      show ?thesis by (intro exI [of _ "k1 + k"]) simp
    next
      case c
      have "analyzer R self E out s1 = (r, s')"
        using Cons.prems ts Inr c by simp
      from extends_trans [OF k1(2) quietD [OF quiet_analyzer this]] k1(1)
      show ?thesis by (intro exI [of _ "k1"]) simp
    qed
  qed
qed

lemma extends_new_events: "extends s s' k \<Longrightarrow> trace s' = trace s @ new_events s s' \<and> n_spawn (new_events s s') = k"
  by (auto simp: extends_def new_events_def)

lemma run_loop_step:
  assumes "thread_start R self cli wait s = (Inr out, a)"
  shows "(has_429 out \<longrightarrow>
            run_loop R self E cli wait (i # is) s
              = run_loop R self E cli wait is
                  (sleep R (60 * (i + 3)) (logger (log_retry_429 (60 * (i + 3))) a)))
       \<and> (\<not> has_429 out \<and> has_500 out \<longrightarrow>
            run_loop R self E cli wait (i # is) s
              = run_loop R self E cli wait is (sleep R 60 (logger log_retry_500 a)))
       \<and> (\<not> has_429 out \<and> \<not> has_500 out \<longrightarrow>
            run_loop R self E cli wait (i # is) s = analyzer R self E out a)"
  using assms by (simp add: Let_def)

lemma run_loop_retry:
  assumes "thread_start R self cli wait s = (Inr out, a)" "has_429 out \<or> has_500 out"
  shows "run_loop R self E cli wait (i # is) s = run_loop R self E cli wait is (after_retry R i out a)"
  using assms by (auto simp: Let_def after_retry_def)

text \<open>
  C3: whatever the host answers, \<^verbatim>\<open>run_start\<close> launches the agent at most 4 times. An
  attempt \<open>i\<close> (from 0) that captured a text with the 429 marker logs a warning, sleeps
  \<open>60 * (i + 3)\<close> seconds and goes on with the attempts that are left (180 seconds after
  the first attempt); else one whose text matches the status 500 marker sleeps 60 seconds
  and goes on; else the result is what \<^verbatim>\<open>analyzer\<close> gives for the text. When all 4
  attempts end in a retry, the run fails with \<^verbatim>\<open>FailException("Failed to run virt-who
  service.")\<close>, the run-exhausted error.
\<close>

theorem run_start_attempts:
  "(\<forall>r s'. run_start R self E cli wait s = (r, s') \<longrightarrow>
        trace s' = trace s @ new_events s s' \<and> n_spawn (new_events s s') \<le> 4)
   \<and> (\<forall>i is out a. thread_start R self cli wait s = (Inr out, a) \<longrightarrow>
        (has_429 out \<longrightarrow>
            run_loop R self E cli wait (i # is) s
              = run_loop R self E cli wait is
                  (sleep R (60 * (i + 3)) (logger (log_retry_429 (60 * (i + 3))) a)))
       \<and> (\<not> has_429 out \<and> has_500 out \<longrightarrow>
            run_loop R self E cli wait (i # is) s
              = run_loop R self E cli wait is (sleep R 60 (logger log_retry_500 a)))
       \<and> (\<not> has_429 out \<and> \<not> has_500 out \<longrightarrow>
            run_loop R self E cli wait (i # is) s = analyzer R self E out a))
   \<and> (\<forall>out a. thread_start R self cli wait s = (Inr out, a) \<and> has_429 out \<longrightarrow>
        run_start R self E cli wait s
          = run_loop R self E cli wait [1..<4] (sleep R 180 (logger (log_retry_429 180) a)))
   \<and> (\<forall>o0 a0 o1 a1 o2 a2 o3 a3.
        thread_start R self cli wait s = (Inr o0, a0) \<and> (has_429 o0 \<or> has_500 o0)
        \<and> thread_start R self cli wait (after_retry R 0 o0 a0) = (Inr o1, a1)
        \<and> (has_429 o1 \<or> has_500 o1)
        \<and> thread_start R self cli wait (after_retry R 1 o1 a1) = (Inr o2, a2)
        \<and> (has_429 o2 \<or> has_500 o2)
        \<and> thread_start R self cli wait (after_retry R 2 o2 a2) = (Inr o3, a3)
        \<and> (has_429 o3 \<or> has_500 o3)
        \<longrightarrow> run_start R self E cli wait s = (Inl run_exhausted, after_retry R 3 o3 a3))"
proof -
  have u4: "[0..<4] = [0, 1, 2, 3]" "[1..<4] = [1, 2, 3]"
    by (simp_all add: upt_conv_Cons)
  have A: "\<forall>r s'. run_start R self E cli wait s = (r, s') \<longrightarrow>
        trace s' = trace s @ new_events s s' \<and> n_spawn (new_events s s') \<le> 4"
  proof (intro allI impI)
    fix r s'
    assume "run_start R self E cli wait s = (r, s')"
    then have "run_loop R self E cli wait [0..<4] s = (r, s')" by (simp add: run_start_def)
    from run_loop_spawn [OF this] obtain k where "k \<le> 4" "extends s s' k" by auto
    with extends_new_events show "trace s' = trace s @ new_events s s' \<and> n_spawn (new_events s s') \<le> 4"
      by blast
  qed
  have B: "\<forall>i is out a. thread_start R self cli wait s = (Inr out, a) \<longrightarrow>
        (has_429 out \<longrightarrow>
            run_loop R self E cli wait (i # is) s
              = run_loop R self E cli wait is
                  (sleep R (60 * (i + 3)) (logger (log_retry_429 (60 * (i + 3))) a)))
       \<and> (\<not> has_429 out \<and> has_500 out \<longrightarrow>
            run_loop R self E cli wait (i # is) s
              = run_loop R self E cli wait is (sleep R 60 (logger log_retry_500 a)))
       \<and> (\<not> has_429 out \<and> \<not> has_500 out \<longrightarrow>
            run_loop R self E cli wait (i # is) s = analyzer R self E out a)"
    using run_loop_step by blast
  have C: "\<forall>out a. thread_start R self cli wait s = (Inr out, a) \<and> has_429 out \<longrightarrow>
        run_start R self E cli wait s
          = run_loop R self E cli wait [1..<4] (sleep R 180 (logger (log_retry_429 180) a))"
  proof (intro allI impI, elim conjE)
    fix out a
    assume t: "thread_start R self cli wait s = (Inr out, a)" and h: "has_429 out"
    have "[0..<4] = 0 # [1..<4]" by (simp add: upt_conv_Cons)
    then have "run_start R self E cli wait s = run_loop R self E cli wait (0 # [1..<4]) s"
      by (simp only: run_start_def)
    also have "\<dots> = run_loop R self E cli wait [1..<4]
                     (sleep R (60 * (0 + 3)) (logger (log_retry_429 (60 * (0 + 3))) a))"
      using run_loop_step [OF t, of E 0 "[1..<4]"] h by blast
    finally show "run_start R self E cli wait s
          = run_loop R self E cli wait [1..<4] (sleep R 180 (logger (log_retry_429 180) a))"
      by simp
  qed
  have D: "\<forall>o0 a0 o1 a1 o2 a2 o3 a3.
        thread_start R self cli wait s = (Inr o0, a0) \<and> (has_429 o0 \<or> has_500 o0)
        \<and> thread_start R self cli wait (after_retry R 0 o0 a0) = (Inr o1, a1)
        \<and> (has_429 o1 \<or> has_500 o1)
        \<and> thread_start R self cli wait (after_retry R 1 o1 a1) = (Inr o2, a2)
        \<and> (has_429 o2 \<or> has_500 o2)
        \<and> thread_start R self cli wait (after_retry R 2 o2 a2) = (Inr o3, a3)
        \<and> (has_429 o3 \<or> has_500 o3)
        \<longrightarrow> run_start R self E cli wait s = (Inl run_exhausted, after_retry R 3 o3 a3)"
  proof (intro allI impI, elim conjE)
    fix o0 a0 o1 a1 o2 a2 o3 a3
    assume t0: "thread_start R self cli wait s = (Inr o0, a0)" "has_429 o0 \<or> has_500 o0"
      and t1: "thread_start R self cli wait (after_retry R 0 o0 a0) = (Inr o1, a1)"
              "has_429 o1 \<or> has_500 o1"
      and t2: "thread_start R self cli wait (after_retry R 1 o1 a1) = (Inr o2, a2)"
              "has_429 o2 \<or> has_500 o2"
      and t3: "thread_start R self cli wait (after_retry R 2 o2 a2) = (Inr o3, a3)"
              "has_429 o3 \<or> has_500 o3"
    show "run_start R self E cli wait s = (Inl run_exhausted, after_retry R 3 o3 a3)"
      unfolding run_start_def u4
      by (simp only: run_loop_retry [OF t0] run_loop_retry [OF t1] run_loop_retry [OF t2]
          run_loop_retry [OF t3] run_loop.simps(1) One_nat_def [symmetric] numeral_2_eq_2 [symmetric]
          numeral_3_eq_3 [symmetric])
  qed
  from A B C D show ?thesis by blast
qed


theorem run_start_attempts_witness:
  "fst (run_start (table_host [(''cat /var/log/rhsm/rhsm.log'', (0, ''status=429''))])
          (init_runner ''esx'' ''rhsm'') (table_env [] ''g1'') None None start_state)
     = Inl run_exhausted
   \<and> n_spawn (new_events start_state
         (snd (run_start (table_host [(''cat /var/log/rhsm/rhsm.log'', (0, ''status=429''))])
                (init_runner ''esx'' ''rhsm'') (table_env [] ''g1'') None None start_state)))
       \<le> 4"
proof -
  let ?R = "table_host [(''cat /var/log/rhsm/rhsm.log'', (0, ''status=429''))]"
  let ?self = "init_runner ''esx'' ''rhsm''"
  let ?E = "table_env [] ''g1''"
  let ?o = "''status=429''"
  let ?ts = "thread_start ?R ?self None None"
  let ?a0 = "snd (?ts start_state)"
  let ?a1 = "snd (?ts (after_retry ?R 0 ?o ?a0))"
  let ?a2 = "snd (?ts (after_retry ?R 1 ?o ?a1))"
  let ?a3 = "snd (?ts (after_retry ?R 2 ?o ?a2))"
  have h: "has_429 ?o \<or> has_500 ?o" by code_simp
  have f0: "fst (?ts start_state) = Inr ?o" by code_simp
  have f1: "fst (?ts (after_retry ?R 0 ?o ?a0)) = Inr ?o" by code_simp
  have f2: "fst (?ts (after_retry ?R 1 ?o ?a1)) = Inr ?o" by code_simp
  have f3: "fst (?ts (after_retry ?R 2 ?o ?a2)) = Inr ?o" by code_simp
  have t0: "?ts start_state = (Inr ?o, ?a0)" using f0 by (simp add: prod_eq_iff)
  have t1: "?ts (after_retry ?R 0 ?o ?a0) = (Inr ?o, ?a1)" using f1 by (simp add: prod_eq_iff)
  have t2: "?ts (after_retry ?R 1 ?o ?a1) = (Inr ?o, ?a2)" using f2 by (simp add: prod_eq_iff)
  have t3: "?ts (after_retry ?R 2 ?o ?a2) = (Inr ?o, ?a3)" using f3 by (simp add: prod_eq_iff)
  note T = run_start_attempts [of ?R ?self ?E None None start_state]
  from T t0 t1 t2 t3 h
  have x: "run_start ?R ?self ?E None None start_state = (Inl run_exhausted, after_retry ?R 3 ?o ?a3)"
    by blast
  from T have "n_spawn (new_events start_state (snd (run_start ?R ?self ?E None None start_state))) \<le> 4"
    by (metis prod.collapse)
  with x show ?thesis by simp
qed

section \<open>The analyser\<close>

text \<open>
  C1 says that \<^verbatim>\<open>analyzer\<close> never raises. It raises on each of the three inputs the claim
  names: \<^verbatim>\<open>IndexError\<close> in local mode on a log without a \<^verbatim>\<open>Domain info:\<close> block
  (\<^verbatim>\<open>rex.findall(rhsm_log)[0]\<close> in \<^verbatim>\<open>mappings_local\<close>), \<^verbatim>\<open>ValueError\<close> on an interval capture
  that is no number (\<^verbatim>\<open>int(interval_time)\<close>), and \<^verbatim>\<open>KeyError\<close> in local mode on a parsed
  block, whose dictionary has no key \<^verbatim>\<open>orgs\<close> (\<^verbatim>\<open>mapping['orgs']\<close> in \<^verbatim>\<open>hypervisor_id\<close>).
\<close>

theorem analyzer_raises:
  "fst (analyzer (table_host []) (init_runner ''local'' ''rhsm'') (table_env [] ''g1'') []
          start_state) = Inl IndexError
   \<and> fst (analyzer (table_host []) (init_runner ''esx'' ''rhsm'') (table_env [] ''g1'')
            ''Starting infinite loop with abc seconds interval'' start_state) = Inl ValueError
   \<and> fst (analyzer (table_host []) (init_runner ''local'' ''rhsm'')
            (table_env [(domain_array, domain_value)] ''g1'') domain_log start_state)
       = Inl KeyError"
  by code_simp

text \<open>
  C7 says that the mappings field is always a mapping, empty when the log has no mapping
  data. \<^verbatim>\<open>mappings\<close> raises \<^verbatim>\<open>IndexError\<close> in local mode on the empty log, whatever
  \<^verbatim>\<open>json.loads\<close> does, and in remote mode on a log that names an organization and has no
  block.
\<close>

theorem mappings_no_data_raises:
  "mappings (init_runner ''local'' r) lo [] = Inl IndexError
   \<and> mappings (init_runner ''esx'' r) lo
        (''Host-to-guest mapping being sent to '' @ [sq] @ ''A'' @ [sq]) = Inl IndexError"
  by code_simp

text \<open>
  C5 says that every organization gets the data of the last block sent to it. In the log
  with the organizations \<^verbatim>\<open>A\<close> (one hypervisor) and \<^verbatim>\<open>B\<close> (none), the block
  \<^verbatim>\<open>mappings_remote\<close> parses for \<^verbatim>\<open>A\<close> is the block sent to \<^verbatim>\<open>B\<close>, and \<^verbatim>\<open>A\<close> is
  recorded with no hypervisor.
\<close>

theorem mappings_remote_last_block:
  "mapping_block two_org_log ''A'' = Inr (block_B @ [newline])
   \<and> mappings_remote two_org_loads two_org_log
       = Inr (PDict [(PStr ''orgs'', PList [PStr ''A'', PStr ''B'']),
                     (PStr ''A'', PDict [(PStr ''hypervisor_num'', PInt 0)]),
                     (PStr ''B'', PDict [(PStr ''hypervisor_num'', PInt 0)])])"
  by code_simp






section \<open>Errors and warnings of the log\<close>

subsection \<open>Lines\<close>

lemma split_on_nonempty [simp]: "split_on d s \<noteq> []"
  by (induction s) (auto split: list.splits)

lemma length_split_on: "length (split_on d s) = Suc (length (filter (\<lambda>c. c = d) s))"
  by (induction s) (auto split: list.splits)

lemma split_on_no_sep: "l \<in> set (split_on d s) \<Longrightarrow> d \<notin> set l"
  by (induction s arbitrary: l) (auto split: list.splits if_splits)

lemma split_on_line: "d \<notin> set l \<Longrightarrow> split_on d (l @ d # r) = l # split_on d r"
  by (induction l) (auto split: list.splits)

lemma lines_of_no_newline: "l \<in> set (lines_of text) \<Longrightarrow> newline \<notin> set l"
  by (auto simp: lines_of_def Let_def dest: split_on_no_sep in_set_butlastD split: if_splits)

lemma space_newline [simp]: "is_space newline"
  by (simp add: is_space_def newline_def)

lemma nl_filter_solid [simp]: "solid l \<Longrightarrow> filter (\<lambda>c. c = newline) l = []"
  by (auto simp: solid_def filter_empty_conv)

lemma nl_count_unlines:
  "\<forall>l\<in>set ls. solid l \<Longrightarrow> length (filter (\<lambda>c. c = newline) (unlines ls)) = length ls"
  by (induction ls) (auto simp: unlines_def)

lemma filter_dropWhile_nil:
  "filter Q a = [] \<Longrightarrow> filter Q (dropWhile P a) = []"
  by (metis filter_empty_conv set_dropWhileD)

lemma back_drop_solid:
  assumes "\<exists>c\<in>set z. \<not> is_space c"
  shows "rev (dropWhile is_space (rev (x @ z @ [newline])))
           = x @ rev (dropWhile is_space (rev z))"
proof -
  obtain c where c: "c \<in> set (rev z)" "\<not> is_space c" using assms by auto
  have "dropWhile is_space (rev (x @ z @ [newline])) = dropWhile is_space (rev z @ rev x)"
    by simp
  also have "\<dots> = dropWhile is_space (rev z) @ rev x"
    using c by (rule dropWhile_append1)
  finally show ?thesis by simp
qed

lemma strip_unlines_count:
  assumes "ls \<noteq> []" "\<forall>l\<in>set ls. solid l"
  shows "length (filter (\<lambda>c. c = newline) (strip (unlines ls))) = length ls - 1"
proof (cases ls)
  case Nil
  with assms show ?thesis by simp
next
  case (Cons l ls')
  have sl: "solid l" using assms Cons by simp
  then obtain c where c: "c \<in> set l" "\<not> is_space c" by (auto simp: solid_def)
  let ?a = "dropWhile is_space l"
  have a0: "filter (\<lambda>c. c = newline) ?a = []"
    using sl by (intro filter_dropWhile_nil) simp
  have a1: "\<exists>c\<in>set ?a. \<not> is_space c"
    using c by (metis dropWhile_eq_Nil_conv hd_dropWhile hd_in_set)
  show ?thesis
  proof (cases "ls' = []")
    case True
    have "dropWhile is_space (unlines ls) = ?a @ [newline]"
      using Cons True c by (simp add: unlines_def dropWhile_append1)
    then have "strip (unlines ls) = rev (dropWhile is_space (rev ([] @ ?a @ [newline])))"
      by (simp add: strip_def)
    also have "\<dots> = rev (dropWhile is_space (rev ?a))"
      using back_drop_solid [OF a1, of "[]"] by simp
    finally have "filter (\<lambda>c. c = newline) (strip (unlines ls)) = []"
      using a0 by (simp add: filter_dropWhile_nil rev_filter [symmetric] del: rev_filter)
    then show ?thesis using Cons True by simp
  next
    case False
    let ?z = "last ls'"
    let ?U = "unlines (butlast ls')"
    have sz: "solid ?z" using assms Cons False by simp
    have z1: "\<exists>c\<in>set ?z. \<not> is_space c" using sz by (simp add: solid_def)
    have sU: "\<forall>l\<in>set (butlast ls'). solid l"
      using assms Cons by (auto dest: in_set_butlastD)
    have u: "unlines ls' = ?U @ ?z @ [newline]"
    proof -
      have "ls' = butlast ls' @ [?z]" using False by simp
      then have "unlines ls' = unlines (butlast ls' @ [?z])" by simp
      then show ?thesis by (simp add: unlines_def)
    qed
    have "dropWhile is_space (unlines ls) = ?a @ [newline] @ unlines ls'"
      using Cons c by (simp add: unlines_def dropWhile_append1)
    then have "strip (unlines ls)
                 = rev (dropWhile is_space (rev ((?a @ [newline] @ ?U) @ ?z @ [newline])))"
      by (simp add: strip_def u)
    also have "\<dots> = (?a @ [newline] @ ?U) @ rev (dropWhile is_space (rev ?z))"
      by (rule back_drop_solid [OF z1])
    finally have "filter (\<lambda>c. c = newline) (strip (unlines ls))
        = filter (\<lambda>c. c = newline) ?a @ [newline] @ filter (\<lambda>c. c = newline) ?U
          @ filter (\<lambda>c. c = newline) (rev (dropWhile is_space (rev ?z)))"
      by simp
    moreover have "filter (\<lambda>c. c = newline) (rev (dropWhile is_space (rev ?z))) = []"
      using sz by (simp add: filter_dropWhile_nil rev_filter [symmetric] del: rev_filter)
    ultimately have "length (filter (\<lambda>c. c = newline) (strip (unlines ls)))
        = Suc (length (butlast ls'))"
      using a0 nl_count_unlines [OF sU] by simp
    then show ?thesis using Cons False by simp
  qed
qed

lemma count_lines_unlines:
  assumes "\<forall>l\<in>set ls. solid l"
  shows "count_lines (unlines ls) = length ls"
proof (cases "ls = []")
  case True
  then show ?thesis by (simp add: count_lines_def unlines_def)
next
  case False
  then have "unlines ls \<noteq> []" by (cases ls) (auto simp: unlines_def)
  then show ?thesis
    using strip_unlines_count [OF False assms] False
    by (simp add: count_lines_def length_split_on)
qed

subsection \<open>Sorting\<close>

lemma set_insert_line [simp]: "set (insert_line l ms) = insert l (set ms)"
  by (induction ms) auto

lemma length_insert_line [simp]: "length (insert_line l ms) = Suc (length ms)"
  by (induction ms) auto

lemma set_sort_lines [simp]: "set (sort_lines ls) = set ls"
  by (induction ls) (auto simp: sort_lines_def)

lemma length_sort_lines [simp]: "length (sort_lines ls) = length ls"
  by (induction ls) (auto simp: sort_lines_def)


subsection \<open>Matching\<close>

lemma rmatch_lit_head:
  "rmatch f adv n0 (One (Lit c) # p) pre rest = Some m \<Longrightarrow>
     \<exists>x xs. rest = x # xs \<and> cls_ok f (Lit c) x"
  by (cases rest) (auto split: if_splits)

lemma at_pos_lit_head:
  "fst (at_pos f (One (Lit c) # p) pre rest) \<noteq> [] \<Longrightarrow>
     \<exists>x xs. rest = x # xs \<and> cls_ok f (Lit c) x"
  unfolding at_pos_def
  by (auto split: option.splits if_splits dest: rmatch_lit_head)

lemma scan_lit_char:
  "scan f (One (Lit c) # p) k pre s \<noteq> [] \<Longrightarrow> \<exists>x\<in>set s. cls_ok f (Lit c) x"
proof (induction s arbitrary: k pre)
  case Nil
  then show ?case using at_pos_lit_head [of f c p pre "[]"] by (auto split: if_splits)
next
  case (Cons x xs)
  show ?case
  proof (cases "k = 0")
    case True
    obtain items n where ap: "at_pos f (One (Lit c) # p) pre (x # xs) = (items, n)"
      by (metis prod.exhaust)
    show ?thesis
    proof (cases "items = []")
      case True
      with Cons.prems \<open>k = 0\<close> ap have "scan f (One (Lit c) # p) (n - 1) (x # pre) xs \<noteq> []"
        by simp
      from Cons.IH [OF this] show ?thesis by auto
    next
      case False
      with ap at_pos_lit_head [of f c p pre "x # xs"] show ?thesis by auto
    qed
  next
    case False
    with Cons.prems have "scan f (One (Lit c) # p) (k - 1) (x # pre) xs \<noteq> []" by simp
    from Cons.IH [OF this] show ?thesis by auto
  qed
qed

lemma tag_line_solid:
  assumes "l \<in> set (grep_lines (re_tag t) text)"
  shows "solid l"
proof -
  from assms have m: "line_matches (re_tag t) l" and l: "l \<in> set (lines_of text)"
    by (auto simp: grep_lines_def)
  from m have "scan flags_none (One (Lit CHR ''['') # Star Dot # lit t @ [Star Dot, One (Lit CHR '']'')]) 0 [] l \<noteq> []"
    by (simp add: line_matches_def re_findall_def re_tag_def)
  from scan_lit_char [OF this] have "CHR ''['' \<in> set l"
    by (auto simp: flags_none_def)
  moreover have "\<not> is_space CHR ''[''" by (simp add: is_space_def)
  ultimately show ?thesis using lines_of_no_newline [OF l] by (auto simp: solid_def)
qed

subsection \<open>The table of the log host\<close>

lemma upper_error [simp]: "upper_str ''error'' = ''ERROR''"
  by (simp add: upper_str_def upper_char_def lower_letters_def upper_letters_def)

lemma upper_warning [simp]: "upper_str ''warning'' = ''WARNING''"
  by (simp add: upper_str_def upper_char_def lower_letters_def upper_letters_def)

lemma lookup_error:
  "map_of (log_table self text) (error_warning_cmd self ''error'')
     = Some (0, unlines (sort_lines (grep_lines (re_tag ''ERROR'') text)))"
  by (simp add: log_table_def error_warning_cmd_def loop_count_cmd_def loop_head_cmd_def
      loop_first_cmd_def loop_key_def sq_def bslash_def split: list.splits)

lemma lookup_warning:
  "map_of (log_table self text) (error_warning_cmd self ''warning'')
     = Some (0, unlines (sort_lines (grep_lines (re_tag ''WARNING'') text)))"
  by (simp add: log_table_def error_warning_cmd_def loop_count_cmd_def loop_head_cmd_def
      loop_first_cmd_def loop_key_def sq_def bslash_def split: list.splits)

lemma runcmd_table:
  "runcmd (table_host tab) cmd s
     = (answer_of tab cmd,
        \<lparr>world = (),
         trace = trace s @ [Cmd cmd (fst (answer_of tab cmd)) (snd (answer_of tab cmd))]\<rparr>)"
  by (simp add: runcmd_def table_host_def split: prod.splits)

lemma error_warning_table:
  "fst (error_warning (table_host tab) self msg s)
     = (count_lines (snd (answer_of tab (error_warning_cmd self msg))),
        snd (answer_of tab (error_warning_cmd self msg)))"
  by (simp add: error_warning_def runcmd_def table_host_def split: prod.splits)

text \<open>
  C9, as stated, at a log whose only line carries the tag \<^verbatim>\<open>[error]\<close> in lower case: the
  line matches the bracketed ERROR tag when case is ignored (the harness's own
  \<^verbatim>\<open>msg_search\<close> finds it), and the error count is 0 with no line returned.
\<close>

theorem error_warning_case_sensitive:
  "has_error lower_tag_log
   \<and> fst (error_warning (log_host (init_runner ''esx'' ''rhsm'') lower_tag_log)
              (init_runner ''esx'' ''rhsm'') ''error'' start_state) = (0, [])"
  by code_simp

text \<open>
  C9, amended: for every log, the error count (the warning count) is the number of lines
  that \<^verbatim>\<open>grep\<close> selects for \<^verbatim>\<open>\[.*ERROR.*\]\<close> (for \<^verbatim>\<open>\[.*WARNING.*\]\<close>), the tag in
  upper case and the match sensitive to case, and these lines are returned with the count,
  unchanged and in sorted order.
\<close>

theorem error_warning_counts_lines:
  "fst (error_warning (log_host self text) self ''error'' s)
     = (length (grep_lines (re_tag ''ERROR'') text),
        unlines (sort_lines (grep_lines (re_tag ''ERROR'') text)))
   \<and> fst (error_warning (log_host self text) self ''warning'' s)
     = (length (grep_lines (re_tag ''WARNING'') text),
        unlines (sort_lines (grep_lines (re_tag ''WARNING'') text)))
   \<and> set (sort_lines (grep_lines (re_tag ''ERROR'') text)) = set (grep_lines (re_tag ''ERROR'') text)
   \<and> set (sort_lines (grep_lines (re_tag ''WARNING'') text))
       = set (grep_lines (re_tag ''WARNING'') text)"
proof -
  have c: "\<And>t. count_lines (unlines (sort_lines (grep_lines (re_tag t) text)))
             = length (grep_lines (re_tag t) text)"
    using count_lines_unlines [of "sort_lines (grep_lines (re_tag t) text)" for t]
    by (simp add: tag_line_solid)
  show ?thesis
    by (simp add: log_host_def error_warning_table answer_of_def lookup_error lookup_warning c)
qed


theorem error_warning_counts_lines_witness:
  "fst (error_warning (log_host (init_runner ''esx'' ''rhsm'') tagged_log)
          (init_runner ''esx'' ''rhsm'') ''error'' start_state)
     = (1, ''2021-01-01 10:02:00 [ERROR] boom'' @ [newline])
   \<and> fst (error_warning (log_host (init_runner ''esx'' ''rhsm'') tagged_log)
          (init_runner ''esx'' ''rhsm'') ''warning'' start_state)
     = (1, ''2021-01-01 10:02:01 [WARNING] hm'' @ [newline])"
proof -
  have g: "grep_lines (re_tag ''ERROR'') tagged_log = [''2021-01-01 10:02:00 [ERROR] boom'']
    \<and> grep_lines (re_tag ''WARNING'') tagged_log = [''2021-01-01 10:02:01 [WARNING] hm'']"
    by code_simp
  from error_warning_counts_lines [of "init_runner ''esx'' ''rhsm''" tagged_log start_state] g
  show ?thesis by (simp add: sort_lines_def unlines_def)
qed

section \<open>The loop count and the loop interval\<close>

subsection \<open>Numbers as text\<close>

lemma digit_nth:
  "k < 10 \<Longrightarrow> is_digit (digit_chars ! k) \<and> digit_val (digit_chars ! k) = k
     \<and> \<not> is_space (digit_chars ! k) \<and> digit_chars ! k \<noteq> CHR ''-'' \<and> digit_chars ! k \<noteq> CHR ''+''"
proof -
  assume "k < 10"
  then consider "k = 0" | "k = 1" | "k = 2" | "k = 3" | "k = 4" | "k = 5" | "k = 6" | "k = 7"
    | "k = 8" | "k = 9" by atomize_elim arith
  then show ?thesis
    by cases (simp_all add: is_digit_def digit_val_def digit_chars_def is_space_def
        upt_conv_Cons)
qed

lemma parse_digits_snoc:
  "xs \<noteq> [] \<Longrightarrow> \<forall>c\<in>set xs. is_digit c \<Longrightarrow> is_digit d \<Longrightarrow>
     parse_digits acc b (xs @ [d])
       = map_option (\<lambda>v. v * 10 + digit_val d) (parse_digits acc b xs)"
proof (induction xs arbitrary: acc b)
  case Nil
  then show ?case by simp
next
  case (Cons x xs)
  show ?case
  proof (cases "xs = []")
    case True
    with Cons.prems show ?thesis by simp
  next
    case False
    with Cons.prems Cons.IH [of "acc * 10 + digit_val x" True] show ?thesis by simp
  qed
qed

lemma str_nat_digits: "str_nat n \<noteq> [] \<and> (\<forall>c\<in>set (str_nat n). is_digit c \<and> \<not> is_space c)"
proof (induction n rule: str_nat.induct)
  case (1 n)
  show ?case
  proof (cases "n < 10")
    case True
    then show ?thesis using digit_nth [of n] by (subst (1 2) str_nat.simps) simp
  next
    case False
    then show ?thesis using 1 digit_nth [of "n mod 10"]
      by (subst (1 2) str_nat.simps) auto
  qed
qed

lemma parse_str_nat: "parse_digits 0 False (str_nat n) = Some n"
proof (induction n rule: str_nat.induct)
  case (1 n)
  show ?case
  proof (cases "n < 10")
    case True
    then show ?thesis using digit_nth [of n] by (subst str_nat.simps) simp
  next
    case False
    have d: "is_digit (digit_chars ! (n mod 10))" "digit_val (digit_chars ! (n mod 10)) = n mod 10"
      using digit_nth [of "n mod 10"] by simp_all
    have "parse_digits 0 False (str_nat (n div 10) @ [digit_chars ! (n mod 10)])
            = Some ((n div 10) * 10 + n mod 10)"
      using parse_digits_snoc [of "str_nat (n div 10)" "digit_chars ! (n mod 10)" 0 False]
        str_nat_digits [of "n div 10"] d 1 [OF False]
      by simp
    then show ?thesis using False by (subst str_nat.simps) simp
  qed
qed

lemma strip_digits:
  assumes "xs \<noteq> []" "\<forall>c\<in>set xs. \<not> is_space c"
  shows "strip (xs @ [newline]) = xs"
proof -
  have nl: "is_space newline" by (simp add: is_space_def newline_def)
  have a: "dropWhile is_space (xs @ [newline]) = xs @ [newline]"
    using assms by (cases xs) auto
  have "dropWhile is_space (rev (xs @ [newline])) = dropWhile is_space (rev xs)"
    using nl by simp
  also have "\<dots> = rev xs"
    using assms by (cases "rev xs") auto
  finally show ?thesis by (simp add: strip_def a)
qed

lemma py_int_str_nat: "py_int (str_nat n @ [newline]) = Inr (int n)"
proof -
  have s: "strip (str_nat n @ [newline]) = str_nat n"
    using str_nat_digits [of n] by (intro strip_digits) auto
  obtain c cs where c: "str_nat n = c # cs" using str_nat_digits [of n] by (cases "str_nat n") auto
  have hd: "c \<noteq> CHR ''-''" "c \<noteq> CHR ''+''"
  proof -
    have "is_digit c" using str_nat_digits [of n] c by simp
    then show "c \<noteq> CHR ''-''" "c \<noteq> CHR ''+''" by (auto simp: is_digit_def digit_chars_def)
  qed
  have s': "strip (c # cs @ [newline]) = c # cs" using s c by simp
  have p: "parse_digits 0 False (c # cs) = Some n" using parse_str_nat [of n] c by simp
  show ?thesis
    unfolding py_int_def c using hd by (simp only: append_Cons s' list.case p option.case if_False)
qed


subsection \<open>The loop commands on the log host\<close>

lemma findall_lit_nonempty: "re_findall f (One (Lit c) # p) s \<noteq> [] \<Longrightarrow> s \<noteq> []"
  using at_pos_lit_head [of f c p "[]" "[]"] by (auto simp: re_findall_def)

lemma report_name_nonempty:
  assumes "re_findall flags_none re_report_name outp = name # rest"
  shows "outp \<noteq> []"
proof -
  obtain p where p: "re_report_name = One (Lit CHR ''R'') # p"
    by (simp add: re_report_name_def lit_def)
  have "re_findall flags_none (One (Lit CHR ''R'') # p) outp \<noteq> []"
    using assms p by simp
  then show ?thesis by (rule findall_lit_nonempty)
qed

lemma lookup_first:
  "answer_of (log_table self text) (loop_first_cmd self) = (0, first_report text)"
  by (simp add: answer_of_def log_table_def error_warning_cmd_def loop_count_cmd_def
      loop_head_cmd_def loop_first_cmd_def loop_key_def sq_def dq_def split: list.splits)

lemma lookup_count:
  "re_findall flags_none re_report_name (first_report text) = name # rest \<Longrightarrow> plain name \<Longrightarrow>
     answer_of (log_table self text) (loop_count_cmd self (loop_key name))
       = (0, str_nat (length (grep_fixed (loop_key name) text)) @ [newline])"
  by (simp add: answer_of_def log_table_def)

lemma lookup_head:
  "re_findall flags_none re_report_name (first_report text) = name # rest \<Longrightarrow> plain name \<Longrightarrow>
     answer_of (log_table self text) (loop_head_cmd self (loop_key name))
       = (0, unlines (take 2 (grep_fixed (loop_key name) text)))"
  by (simp add: answer_of_def log_table_def loop_count_cmd_def loop_head_cmd_def)

lemma loop_number_table:
  "fst (loop_number (table_host tab) self s)
     = (case re_findall flags_none re_report_name (snd (answer_of tab (loop_first_cmd self))) of
          [] \<Rightarrow> Inr ([], 0)
        | name # _ \<Rightarrow>
            if snd (answer_of tab (loop_first_cmd self)) \<noteq> [] then
              (case py_int (snd (answer_of tab (loop_count_cmd self (loop_key name)))) of
                 Inl e \<Rightarrow> Inl e
               | Inr n \<Rightarrow> Inr (loop_key name, n - 1))
            else Inr ([], 0))"
  by (simp add: loop_number_def runcmd_table split: prod.splits list.splits sum.splits)

lemma loop_info_table:
  "fst (loop_info (table_host tab) self s)
     = (case fst (loop_number (table_host tab) self s) of
          Inl e \<Rightarrow> Inl e
        | Inr (key, loop_num) \<Rightarrow>
            if loop_num \<noteq> 0 then
              (case loop_time_of (snd (answer_of tab (loop_head_cmd self key))) of
                 Inl e \<Rightarrow> Inl e
               | Inr loop_time \<Rightarrow> Inr (loop_time, loop_num))
            else Inr (- 1, loop_num))"
  by (simp add: loop_info_def runcmd_table split: prod.splits list.splits sum.splits)

lemma loop_number_host:
  assumes "re_findall flags_none re_report_name (first_report text) = name # rest" "plain name"
  shows "fst (loop_number (log_host self text) self s)
           = Inr (loop_key name, int (length (grep_fixed (loop_key name) text)) - 1)"
  using assms report_name_nonempty [OF assms(1)]
  by (simp add: log_host_def loop_number_table lookup_first lookup_count py_int_str_nat)

lemma loop_info_absent:
  assumes "re_findall flags_none re_report_name (first_report text) = []"
  shows "fst (loop_info (log_host self text) self s) = Inr (- 1, 0)"
  using assms
  by (simp add: log_host_def loop_info_table loop_number_table lookup_first)

lemma grep_fixed_no_newline: "l \<in> set (grep_fixed k text) \<Longrightarrow> newline \<notin> set l"
  by (auto simp: grep_fixed_def dest: lines_of_no_newline)

lemma loop_time_two:
  assumes "2 \<le> length ks" "\<forall>l\<in>set ks. newline \<notin> set l"
    "first_clock (ks ! 0) = Inr d1" "first_clock (ks ! 1) = Inr d2"
    "clock_seconds d1 = Inr t1" "clock_seconds d2 = Inr t2"
  shows "loop_time_of (unlines (take 2 ks)) = Inr (t2 - t1)"
proof -
  from assms(1) obtain k0 k1 ks' where ks: "ks = k0 # k1 # ks'"
    by (cases ks; cases "tl ks") auto
  have n: "newline \<notin> set k0" "newline \<notin> set k1" using assms(2) ks by auto
  have "unlines (take 2 ks) = k0 @ newline # k1 @ newline # []"
    by (simp add: ks unlines_def)
  then have "split_on newline (unlines (take 2 ks)) = [k0, k1, []]"
    using n by (simp add: split_on_line)
  then show ?thesis
    using assms(3-6) by (simp add: loop_time_of_def ks ebind_def)
qed

text \<open>
  C6, as stated, at a log of one line that holds the phrase twice: the phrase occurs twice
  and the loop count is 0, because \<^verbatim>\<open>grep ... | wc -l\<close> counts lines. And at a log of two
  reports without a timestamp: the loop count is not zero and \<^verbatim>\<open>loop_info\<close> raises
  \<^verbatim>\<open>IndexError\<close> instead of giving an interval.
\<close>

theorem loop_info_not_occurrences:
  "occurrences (loop_key ''a'') twice_log = 2
   \<and> fst (loop_info (log_host (init_runner ''esx'' ''rhsm'') twice_log)
              (init_runner ''esx'' ''rhsm'') start_state) = Inr (- 1, 0)
   \<and> occurrences (loop_key ''a'') untimed_log = 2
   \<and> fst (loop_info (log_host (init_runner ''esx'' ''rhsm'') untimed_log)
              (init_runner ''esx'' ''rhsm'') start_state) = Inl IndexError"
  by code_simp

text \<open>
  C6, amended: on a host whose log holds the text, when no report line with a quoted name is
  located, the loop count is 0 and the loop interval is -1. When the located name is plain
  (no backslash, bracket, dot, star or single quote), the loop count is the number of log
  lines that contain the phrase \<^verbatim>\<open>Report for config "<name>" gathered, placing in
  datastore\<close> minus one; with exactly one such line the loop count is 0 and the loop
  interval is -1; with at least two such lines, the first two of which carry an
  \<^verbatim>\<open>HH:MM:SS\<close> time, the loop interval is the difference of the seconds since midnight of
  the first times of these two lines.
\<close>

theorem loop_info_counts_lines:
  "(re_findall flags_none re_report_name (first_report text) = [] \<longrightarrow>
      fst (loop_info (log_host self text) self s) = Inr (- 1, 0))
   \<and> (\<forall>name rest. re_findall flags_none re_report_name (first_report text) = name # rest
          \<and> plain name \<longrightarrow>
        fst (loop_number (log_host self text) self s)
          = Inr (loop_key name, int (length (grep_fixed (loop_key name) text)) - 1)
        \<and> (length (grep_fixed (loop_key name) text) = 1 \<longrightarrow>
             fst (loop_info (log_host self text) self s) = Inr (- 1, 0))
        \<and> (\<forall>d1 d2 t1 t2. 2 \<le> length (grep_fixed (loop_key name) text)
              \<and> first_clock (grep_fixed (loop_key name) text ! 0) = Inr d1
              \<and> first_clock (grep_fixed (loop_key name) text ! 1) = Inr d2
              \<and> clock_seconds d1 = Inr t1 \<and> clock_seconds d2 = Inr t2 \<longrightarrow>
             fst (loop_info (log_host self text) self s)
               = Inr (t2 - t1, int (length (grep_fixed (loop_key name) text)) - 1)))"
proof (intro conjI allI impI, goal_cases)
  case 1
  then show ?case by (rule loop_info_absent)
next
  case (2 name rest)
  then show ?case using loop_number_host by blast
next
  case (3 name rest)
  then have n: "fst (loop_number (log_host self text) self s) = Inr (loop_key name, 0)"
    using loop_number_host [of "text" name rest self s] by simp
  show ?case
    using n by (simp add: loop_info_table [of "log_table self text", folded log_host_def])
next
  case (4 name rest d1 d2 t1 t2)
  let ?ks = "grep_fixed (loop_key name) text"
  have n: "fst (loop_number (log_host self text) self s) = Inr (loop_key name, int (length ?ks) - 1)"
    using "4" loop_number_host [of "text" name rest self s] by simp
  have t: "loop_time_of (unlines (take 2 ?ks)) = Inr (t2 - t1)"
    using "4" grep_fixed_no_newline by (intro loop_time_two) auto
  have h: "snd (answer_of (log_table self text) (loop_head_cmd self (loop_key name)))
             = unlines (take 2 ?ks)"
    using "4" lookup_head [of "text" name rest self] by simp
  show ?case
    using n "4" t h
    by (simp add: loop_info_table [of "log_table self text", folded log_host_def])
qed


theorem loop_info_counts_lines_witness:
  "fst (loop_number (log_host (init_runner ''esx'' ''rhsm'') clock_log)
          (init_runner ''esx'' ''rhsm'') start_state) = Inr (loop_key ''esx'', 1)
   \<and> fst (loop_info (log_host (init_runner ''esx'' ''rhsm'') clock_log)
          (init_runner ''esx'' ''rhsm'') start_state) = Inr (65, 1)"
proof -
  let ?self = "init_runner ''esx'' ''rhsm''"
  let ?l0 = "''2021-01-01 10:00:00 [INFO] '' @ loop_key ''esx''"
  let ?l1 = "''2021-01-01 10:01:05 [INFO] '' @ loop_key ''esx''"
  have f: "re_findall flags_none re_report_name (first_report clock_log) = ''esx'' # []"
    by code_simp
  have p: "plain ''esx''" by code_simp
  have g: "grep_fixed (loop_key ''esx'') clock_log = [?l0, ?l1]" by code_simp
  have c: "first_clock ?l0 = Inr ''10:00:00''" "first_clock ?l1 = Inr ''10:01:05''"
    "clock_seconds ''10:00:00'' = Inr 36000" "clock_seconds ''10:01:05'' = Inr 36065"
    by code_simp+
  from loop_info_counts_lines [of clock_log ?self start_state] f p
  have "fst (loop_number (log_host ?self clock_log) ?self start_state)
          = Inr (loop_key ''esx'', int (length (grep_fixed (loop_key ''esx'') clock_log)) - 1)
        \<and> (\<forall>d1 d2 t1 t2. 2 \<le> length (grep_fixed (loop_key ''esx'') clock_log)
              \<and> first_clock (grep_fixed (loop_key ''esx'') clock_log ! 0) = Inr d1
              \<and> first_clock (grep_fixed (loop_key ''esx'') clock_log ! 1) = Inr d2
              \<and> clock_seconds d1 = Inr t1 \<and> clock_seconds d2 = Inr t2 \<longrightarrow>
             fst (loop_info (log_host ?self clock_log) ?self start_state)
               = Inr (t2 - t1, int (length (grep_fixed (loop_key ''esx'') clock_log)) - 1))"
    by blast
  then show ?thesis
    unfolding g using c by simp
qed

end
